theory Spec2Isabelle
  imports Complex_Main "HOL-Library.Log_Nat"
begin

section \<open>Kikapu Naturals dataset generator: a shallow embedding\<close>

text \<open>
  The generator of \<^verbatim>\<open>kikapu.py\<close> is embedded function by function. Python integers are
  \<open>int\<close>. Python floats (and the numpy float64 values read back from the product table)
  are IEEE binary64 numbers; they are represented by the rational number they denote, and
  every arithmetic operation rounds its exact result to the nearest binary64 value, ties
  to even. The pseudo-random generator of the standard library is a parameter: a state
  type \<open>'g\<close> with the two draws the program uses. Exceptions are values of type
  \<open>error\<close>, returned on the left of a sum.
\<close>

subsection \<open>Errors\<close>

datatype error = ValueError | IndexError | OverflowError | NonFinite

definition bindE :: "error + 'a \<Rightarrow> ('a \<Rightarrow> error + 'b) \<Rightarrow> error + 'b" where
  "bindE m f = (case m of Inl e \<Rightarrow> Inl e | Inr x \<Rightarrow> f x)"

subsection \<open>Binary64 arithmetic on rationals\<close>

text \<open>Round to the nearest integer, a tie going to the even neighbour.\<close>

definition rhe :: "rat \<Rightarrow> int" where
  "rhe x = (let f = \<lfloor>x\<rfloor>; d = x - of_int f
            in if d < 1 / 2 then f else if 1 / 2 < d then f + 1
               else if even f then f else f + 1)"

text \<open>The binary exponent of a non-zero rational: \<open>2 powi expo x \<le> \<bar>x\<bar> < 2 powi (expo x + 1)\<close>.\<close>

definition expo :: "rat \<Rightarrow> int" where
  "expo x = (let (p, q) = quotient_of \<bar>x\<bar>; d = bitlen p - bitlen q
             in if 2 powi d \<le> \<bar>x\<bar> then d else d - 1)"

text \<open>
  The exponent of the last place of the binary64 numbers around \<open>x\<close>: 53 significant
  bits, and the fixed spacing \<open>2 powi (- 1074)\<close> of the subnormal numbers below
  \<open>2 powi (- 1022)\<close>.
\<close>

definition ulp_exp :: "rat \<Rightarrow> int" where
  "ulp_exp x = max (expo x) (- 1022) - 52"

text \<open>
  \<open>fl x\<close> is the binary64 number nearest to \<open>x\<close>, ties to even. The exponent is not
  bounded above: overflow to infinity is not represented. Conversion of a Python integer
  checks the bound, as Python does; every other float of this program is far below it.
\<close>

definition fl :: "rat \<Rightarrow> rat" where
  "fl x = (if x = 0 then 0
           else let g = 2 powi ulp_exp x in of_int (rhe (x / g)) * g)"

text \<open>\<^verbatim>\<open>float(n)\<close> for a Python integer, also where an integer meets a float in arithmetic.\<close>

definition float_of_int :: "int \<Rightarrow> error + rat" where
  "float_of_int n = (let x = fl (of_int n)
                     in if \<bar>x\<bar> < 2 ^ 1024 then Inr x else Inl OverflowError)"

text \<open>The multiples of \<open>2 powi e\<close>: the binary64 numbers with last-place exponent \<open>e\<close> lie on this grid.\<close>

definition on_grid :: "int \<Rightarrow> rat \<Rightarrow> bool" where
  "on_grid e x \<longleftrightarrow> (\<exists>k::int. x = of_int k * 2 powi e)"

subsection \<open>The random source\<close>

text \<open>
  \<^verbatim>\<open>random.seed\<close>, \<^verbatim>\<open>random.random\<close> and \<^verbatim>\<open>random.randint\<close> of the standard library,
  as operations on an explicit generator state.
\<close>

record 'g rng =
  rng_seed :: "int \<Rightarrow> 'g"
  rng_random :: "'g \<Rightarrow> rat \<times> 'g"
  rng_randint :: "int \<Rightarrow> int \<Rightarrow> 'g \<Rightarrow> int \<times> 'g"

text \<open>What the library promises: \<open>random()\<close> lies in \<open>[0, 1)\<close>, \<open>randint(a, b)\<close> in \<open>[a, b]\<close>.\<close>

definition rng_ok :: "'g rng \<Rightarrow> bool" where
  "rng_ok ops \<longleftrightarrow>
     (\<forall>g. 0 \<le> fst (rng_random ops g) \<and> fst (rng_random ops g) < 1) \<and>
     (\<forall>a b g. a \<le> b \<longrightarrow> a \<le> fst (rng_randint ops a b g) \<and> fst (rng_randint ops a b g) \<le> b)"

text \<open>\<^verbatim>\<open>random.randint(a, b)\<close> raises ValueError on an empty range.\<close>

definition py_randint :: "'g rng \<Rightarrow> int \<Rightarrow> int \<Rightarrow> 'g \<Rightarrow> error + (int \<times> 'g)" where
  "py_randint ops a b g = (if b < a then Inl ValueError else Inr (rng_randint ops a b g))"

text \<open>
  A scripted generator for running the model on concrete inputs: the state is the list
  of the uniform draws and the list of the integer draws still to come; an exhausted
  list gives \<open>0\<close>, respectively the lower bound.
\<close>

definition tape_random :: "rat list \<times> int list \<Rightarrow> rat \<times> (rat list \<times> int list)" where
  "tape_random g = (case fst g of [] \<Rightarrow> (0, g)
     | u # us \<Rightarrow> (if 0 \<le> u \<and> u < 1 then u else 0, (us, snd g)))"

definition tape_randint :: "int \<Rightarrow> int \<Rightarrow> rat list \<times> int list \<Rightarrow> int \<times> (rat list \<times> int list)" where
  "tape_randint a b g = (case snd g of [] \<Rightarrow> (a, g)
     | k # ks \<Rightarrow> (if a \<le> k \<and> k \<le> b then k else a, (fst g, ks)))"

definition tape :: "(rat list \<times> int list) rng" where
  "tape = \<lparr> rng_seed = (\<lambda>s. ([], [])), rng_random = tape_random, rng_randint = tape_randint \<rparr>"

subsection \<open>\<^verbatim>\<open>weighted_random\<close>\<close>

text \<open>
  The loop over \<^verbatim>\<open>enumerate(weights)\<close>: \<open>Some i\<close> is \<^verbatim>\<open>return i\<close> inside the loop,
  \<open>None\<close> is falling out of it. The comparison of a float with an integer is exact;
  the subtraction converts the integer to a float first.
\<close>

fun walk :: "rat \<Rightarrow> nat \<Rightarrow> int list \<Rightarrow> error + nat option" where
  "walk rand i [] = Inr None"
| "walk rand i (weight # ws) =
     (if rand < of_int weight then Inr (Some i)
      else bindE (float_of_int weight) (\<lambda>w. walk (fl (rand - w)) (Suc i) ws))"

definition weighted_random :: "'g rng \<Rightarrow> int list \<Rightarrow> 'g \<Rightarrow> error + (int \<times> 'g)" where
  "weighted_random ops weights g =
     (let total = sum_list weights;
          (u, g') = rng_random ops g
      in bindE (float_of_int total) (\<lambda>t.
         bindE (walk (fl (u * t)) 0 weights) (\<lambda>r.
           case r of Some i \<Rightarrow> Inr (int i, g')
                   | None \<Rightarrow> Inr (int (length weights) - 1, g'))))"


subsection \<open>Dates and durations\<close>

text \<open>
  A \<^verbatim>\<open>datetime\<close> is the number of microseconds since the midnight that starts day
  number 0 of the proleptic Gregorian calendar, so that \<^verbatim>\<open>date.toordinal()\<close> is the
  quotient by \<open>US_PER_DAY\<close>; a \<^verbatim>\<open>timedelta\<close> is a number of microseconds. A date
  persisted as \<^verbatim>\<open>'%Y-%m-%d'\<close> text is represented by its day number.
\<close>

type_synonym datetime = int
type_synonym timedelta = int

definition US_PER_DAY :: int where
  "US_PER_DAY = 86400000000"

definition is_leap :: "int \<Rightarrow> bool" where
  "is_leap y \<longleftrightarrow> y mod 4 = 0 \<and> (y mod 100 \<noteq> 0 \<or> y mod 400 = 0)"

definition days_before_year :: "int \<Rightarrow> int" where
  "days_before_year year = (let y = year - 1 in y * 365 + y div 4 - y div 100 + y div 400)"

definition days_before_month :: "int \<Rightarrow> nat \<Rightarrow> int" where
  "days_before_month year month =
     sum_list (take (month - 1) [31, 28, 31, 30, 31, 30, 31, 31, 30, 31, 30, 31])
     + (if 2 < month \<and> is_leap year then 1 else 0)"

definition ymd2ord :: "int \<Rightarrow> nat \<Rightarrow> int \<Rightarrow> int" where
  "ymd2ord year month day = days_before_year year + days_before_month year month + day"

text \<open>\<^verbatim>\<open>datetime(year, month, day)\<close>, for the valid literals of the program.\<close>

definition datetime_ymd :: "int \<Rightarrow> nat \<Rightarrow> int \<Rightarrow> datetime" where
  "datetime_ymd year month day = ymd2ord year month day * US_PER_DAY"

definition MAXORDINAL :: int where
  "MAXORDINAL = 3652059"

definition datetime_min :: datetime where
  "datetime_min = US_PER_DAY"

definition datetime_max :: datetime where
  "datetime_max = (MAXORDINAL + 1) * US_PER_DAY - 1"

definition valid_datetime :: "datetime \<Rightarrow> bool" where
  "valid_datetime d \<longleftrightarrow> datetime_min \<le> d \<and> d \<le> datetime_max"

text \<open>\<^verbatim>\<open>delta.days\<close>: durations are normalised with non-negative seconds, so the days are floored.\<close>

definition td_days :: "timedelta \<Rightarrow> int" where
  "td_days delta = delta div US_PER_DAY"

definition check_timedelta :: "timedelta \<Rightarrow> error + timedelta" where
  "check_timedelta delta =
     (if \<bar>td_days delta\<bar> \<le> 999999999 then Inr delta else Inl OverflowError)"

text \<open>\<^verbatim>\<open>timedelta(days=n)\<close> for an integer.\<close>

definition timedelta_days :: "int \<Rightarrow> error + timedelta" where
  "timedelta_days n = check_timedelta (n * US_PER_DAY)"

text \<open>
  \<^verbatim>\<open>timedelta(days=x)\<close> for a float: the whole days are converted exactly, the
  fraction is scaled to microseconds in float arithmetic, and the sum is rounded to a
  whole microsecond, ties to even.
\<close>

definition timedelta_float_days :: "rat \<Rightarrow> error + timedelta" where
  "timedelta_float_days x =
     (let intpart = (if 0 \<le> x then \<lfloor>x\<rfloor> else \<lceil>x\<rceil>);
          fracpart = x - of_int intpart
      in check_timedelta
           (rhe (of_int (intpart * US_PER_DAY) + fl (of_int US_PER_DAY * fracpart))))"

text \<open>\<^verbatim>\<open>datetime + timedelta\<close> raises OverflowError outside years 1 to 9999.\<close>

definition datetime_add :: "datetime \<Rightarrow> timedelta \<Rightarrow> error + datetime" where
  "datetime_add d delta =
     (if valid_datetime (d + delta) then Inr (d + delta) else Inl OverflowError)"

text \<open>\<^verbatim>\<open>strftime('%Y-%m-%d')\<close> keeps the day; \<^verbatim>\<open>strptime\<close> gives its midnight.\<close>

definition strftime_ymd :: "datetime \<Rightarrow> int" where
  "strftime_ymd d = d div US_PER_DAY"

definition strptime_ymd :: "int \<Rightarrow> error + datetime" where
  "strptime_ymd day =
     (if 1 \<le> day \<and> day \<le> MAXORDINAL then Inr (day * US_PER_DAY) else Inl ValueError)"

subsection \<open>\<^verbatim>\<open>random_date\<close>\<close>

definition random_date :: "'g rng \<Rightarrow> datetime \<Rightarrow> datetime \<Rightarrow> 'g \<Rightarrow> error + (datetime \<times> 'g)" where
  "random_date ops start_date end_date g =
     (let delta = end_date - start_date;
          (u, g') = rng_random ops g
      in bindE (float_of_int (td_days delta)) (\<lambda>days.
         bindE (timedelta_float_days (fl (u * days))) (\<lambda>random_days.
         bindE (datetime_add start_date random_days) (\<lambda>r. Inr (r, g')))))"


subsection \<open>Table rows and the generator object\<close>

text \<open>
  One record per table row, the fields in the order of the dictionaries of the source,
  each field named after its column with the table's initial in front. A column that
  the program may set to \<^verbatim>\<open>None\<close> is an \<open>option\<close>.
\<close>

record product =
  p_product_id :: string
  p_category :: string
  p_name :: string
  p_unit_price :: rat
  p_avg_cogs :: rat
  p_active_since :: string

record customer =
  c_customer_id :: string
  c_segment :: string
  c_acquisition_date :: "int option"
  c_channel :: "string option"
  c_country :: string
  c_status :: string
  c_company_name :: "string option"
  c_account_tier :: "string option"

record order =
  o_order_id :: string
  o_customer_id :: string
  o_order_date :: "int option"
  o_subtotal :: rat
  o_discount_percent :: int
  o_discount_amount :: rat
  o_revenue :: rat
  o_total_cogs :: "rat option"
  o_profit :: "rat option"
  o_num_items :: nat

record line_item =
  li_line_item_id :: string
  li_order_id :: string
  li_customer_id :: string
  li_product_id :: string
  li_product_name :: string
  li_category :: string
  li_quantity :: int
  li_unit_price :: rat
  li_subtotal :: rat
  li_discount_amount :: rat
  li_revenue :: rat
  li_cogs :: "rat option"
  li_profit :: "rat option"
  li_order_date :: "int option"

text \<open>The attributes of \<^verbatim>\<open>KikapuDataGenerator\<close>; \<^verbatim>\<open>__init__\<close> sets all four to \<^verbatim>\<open>None\<close>.\<close>

record generator =
  products :: "product list option"
  customers :: "customer list option"
  orders :: "order list option"
  order_line_items :: "line_item list option"

definition init :: generator where
  "init = \<lparr> products = None, customers = None, orders = None, order_line_items = None \<rparr>"

subsection \<open>Python and table-library primitives\<close>

text \<open>List indexing: a negative index counts from the end, an index out of range raises.\<close>

definition py_index :: "'a list \<Rightarrow> int \<Rightarrow> error + 'a" where
  "py_index xs i =
     (if 0 \<le> i \<and> i < int (length xs) then Inr (xs ! nat i)
      else if i < 0 \<and> - int (length xs) \<le> i then Inr (xs ! nat (int (length xs) + i))
      else Inl IndexError)"

text \<open>Decimal digits of a non-negative integer, and the format \<^verbatim>\<open>{i:0wd}\<close>.\<close>

fun digits :: "nat \<Rightarrow> string" where
  "digits n = (if n < 10 then [char_of (48 + n)]
               else digits (n div 10) @ [char_of (48 + n mod 10)])"

declare digits.simps [simp del]

definition zero_pad :: "nat \<Rightarrow> nat \<Rightarrow> string" where
  "zero_pad w n = replicate (w - length (digits n)) (CHR ''0'') @ digits n"

text \<open>\<^verbatim>\<open>sum\<close> over floats: the additions from left to right, starting from the integer 0.\<close>

definition fsum :: "rat list \<Rightarrow> rat" where
  "fsum xs = foldl (\<lambda>acc x. fl (acc + x)) 0 xs"

text \<open>
  \<^verbatim>\<open>round(x, 2)\<close> on a float64 of the table library: scale by 100, round to the nearest
  integer with ties to even, divide by 100, each step in float arithmetic.
\<close>

definition round2 :: "rat \<Rightarrow> rat" where
  "round2 x = fl (of_int (rhe (fl (x * 100))) / 100)"

text \<open>
  A loop that appends one row per element: the rows in order, the generator state
  threaded through, the first exception ending the run.
\<close>

fun for_each :: "('a \<Rightarrow> 'g \<Rightarrow> error + ('b \<times> 'g)) \<Rightarrow> 'a list \<Rightarrow> 'g \<Rightarrow> error + ('b list \<times> 'g)" where
  "for_each f [] g = Inr ([], g)"
| "for_each f (x # xs) g =
     bindE (f x g) (\<lambda>(y, g1).
     bindE (for_each f xs g1) (\<lambda>(ys, g2). Inr (y # ys, g2)))"

subsection \<open>\<^verbatim>\<open>generate_products\<close>\<close>

definition products_data :: "product list" where
  "products_data =
   [\<lparr>p_product_id = ''P001'', p_category = ''Beverage'', p_name = ''Organic Green Tea'',
     p_unit_price = fl (1899 / 100), p_avg_cogs = fl (850 / 100), p_active_since = ''2021-03-01''\<rparr>,
    \<lparr>p_product_id = ''P002'', p_category = ''Beverage'', p_name = ''Herbal Wellness Blend'',
     p_unit_price = fl (2299 / 100), p_avg_cogs = fl (1020 / 100), p_active_since = ''2021-06-15''\<rparr>,
    \<lparr>p_product_id = ''P003'', p_category = ''Snack'', p_name = ''Superfood Energy Bars'',
     p_unit_price = fl (2499 / 100), p_avg_cogs = fl (1200 / 100), p_active_since = ''2021-01-10''\<rparr>,
    \<lparr>p_product_id = ''P004'', p_category = ''Snack'', p_name = ''Organic Trail Mix'',
     p_unit_price = fl (1599 / 100), p_avg_cogs = fl (780 / 100), p_active_since = ''2021-08-01''\<rparr>,
    \<lparr>p_product_id = ''P005'', p_category = ''Supplement'', p_name = ''Vitamin D3 Gummies'',
     p_unit_price = fl (2999 / 100), p_avg_cogs = fl (1450 / 100), p_active_since = ''2022-01-01''\<rparr>,
    \<lparr>p_product_id = ''P006'', p_category = ''Supplement'', p_name = ''Probiotic Blend'',
     p_unit_price = fl (3499 / 100), p_avg_cogs = fl (1680 / 100), p_active_since = ''2022-03-15''\<rparr>,
    \<lparr>p_product_id = ''P007'', p_category = ''Personal Care'', p_name = ''Natural Face Serum'',
     p_unit_price = fl (3999 / 100), p_avg_cogs = fl (1800 / 100), p_active_since = ''2022-06-01''\<rparr>,
    \<lparr>p_product_id = ''P008'', p_category = ''Personal Care'', p_name = ''Organic Body Lotion'',
     p_unit_price = fl (2699 / 100), p_avg_cogs = fl (1250 / 100), p_active_since = ''2022-08-10''\<rparr>,
    \<lparr>p_product_id = ''P009'', p_category = ''Beverage'', p_name = ''Detox Tea Collection'',
     p_unit_price = fl (3299 / 100), p_avg_cogs = fl (1500 / 100), p_active_since = ''2023-01-05''\<rparr>,
    \<lparr>p_product_id = ''P010'', p_category = ''Snack'', p_name = ''Keto-Friendly Crackers'',
     p_unit_price = fl (1999 / 100), p_avg_cogs = fl (950 / 100), p_active_since = ''2023-04-20''\<rparr>]"

definition generate_products :: "generator \<Rightarrow> generator" where
  "generate_products self = self\<lparr>products := Some products_data\<rparr>"

subsection \<open>\<^verbatim>\<open>generate_customers\<close>\<close>

definition channels :: "string list" where
  "channels = [''Paid Ads'', ''Organic Social'', ''Email'', ''Referral'', ''SEO'', ''Sales'']"

definition countries :: "string list" where
  "countries = [''US'', ''UK'', ''CA'', ''AU'', ''DE'']"

definition statuses :: "string list" where
  "statuses = [''Active'', ''Churned'', ''At Risk'']"

text \<open>A draw from a table by \<^verbatim>\<open>weighted_random\<close>: \<^verbatim>\<open>table[self.weighted_random(weights)]\<close>.\<close>

definition weighted_choice :: "'g rng \<Rightarrow> 'a list \<Rightarrow> int list \<Rightarrow> 'g \<Rightarrow> error + ('a \<times> 'g)" where
  "weighted_choice ops table weights g =
     bindE (weighted_random ops weights g) (\<lambda>(i, g').
     bindE (py_index table i) (\<lambda>x. Inr (x, g')))"

text \<open>The body of the loop over the D2C customers.\<close>

definition d2c_customer :: "'g rng \<Rightarrow> nat \<Rightarrow> 'g \<Rightarrow> error + (customer \<times> 'g)" where
  "d2c_customer ops i g =
     (let start_date = datetime_ymd 2022 1 1;
          end_date = datetime_ymd 2024 11 30
      in bindE (random_date ops start_date end_date g) (\<lambda>(acq_date, g1).
         let days_since_acq = td_days (end_date - acq_date)
         in bindE (if days_since_acq < 90 then weighted_choice ops statuses [80, 15, 5] g1
                   else if days_since_acq < 365 then weighted_choice ops statuses [60, 30, 10] g1
                   else weighted_choice ops statuses [40, 50, 10] g1) (\<lambda>(status, g2).
            bindE (weighted_choice ops channels [30, 25, 15, 12, 15, 3] g2) (\<lambda>(channel, g3).
            bindE (weighted_choice ops countries [50, 20, 15, 10, 5] g3) (\<lambda>(country, g4).
            let customer = \<lparr>c_customer_id = ''C'' @ zero_pad 6 i, c_segment = ''D2C'',
                            c_acquisition_date = Some (strftime_ymd acq_date),
                            c_channel = Some channel, c_country = country, c_status = status,
                            c_company_name = None, c_account_tier = None\<rparr>;
                (u5, g5) = rng_random ops g4;
                customer = (if u5 < fl (2 / 100)
                            then customer\<lparr>c_acquisition_date := None\<rparr> else customer);
                (u6, g6) = rng_random ops g5;
                customer = (if u6 < fl (1 / 100)
                            then customer\<lparr>c_channel := None\<rparr> else customer)
            in Inr (customer, g6))))))"

text \<open>The body of the loop over the B2B customers.\<close>

definition b2b_customer :: "'g rng \<Rightarrow> nat \<Rightarrow> 'g \<Rightarrow> error + (customer \<times> 'g)" where
  "b2b_customer ops i g =
     (let end_date = datetime_ymd 2024 11 30
      in bindE (random_date ops (datetime_ymd 2021 6 1) end_date g) (\<lambda>(acq_date, g1).
         bindE (weighted_choice ops countries [40, 30, 15, 10, 5] g1) (\<lambda>(country, g2).
         bindE (weighted_choice ops [''Enterprise'', ''Mid-Market'', ''SMB''] [20, 50, 30] g2)
           (\<lambda>(tier, g3).
            Inr (\<lparr>c_customer_id = ''B'' @ zero_pad 5 i, c_segment = ''B2B'',
                  c_acquisition_date = Some (strftime_ymd acq_date),
                  c_channel = Some ''Sales'', c_country = country, c_status = ''Active'',
                  c_company_name = Some (''Business Customer '' @ digits i),
                  c_account_tier = Some tier\<rparr>, g3)))))"

definition generate_customers ::
  "'g rng \<Rightarrow> int \<Rightarrow> int \<Rightarrow> generator \<Rightarrow> 'g \<Rightarrow> error + (generator \<times> 'g)" where
  "generate_customers ops num_d2c num_b2b self g =
     bindE (for_each (d2c_customer ops) [1 ..< Suc (nat num_d2c)] g) (\<lambda>(d2c, g1).
     bindE (for_each (b2b_customer ops) [1 ..< Suc (nat num_b2b)] g1) (\<lambda>(b2b, g2).
     Inr (self\<lparr>customers := Some (d2c @ b2b)\<rparr>, g2)))"


subsection \<open>\<^verbatim>\<open>generate_orders\<close>\<close>

text \<open>A loop over a list whose body may raise but draws nothing.\<close>

fun map_err :: "('a \<Rightarrow> error + 'b) \<Rightarrow> 'a list \<Rightarrow> error + 'b list" where
  "map_err f [] = Inr []"
| "map_err f (x # xs) =
     bindE (f x) (\<lambda>y. bindE (map_err f xs) (\<lambda>ys. Inr (y # ys)))"

text \<open>One pass of the loop that selects the products of an order.\<close>

definition select_product ::
  "'g rng \<Rightarrow> product list \<Rightarrow> bool \<Rightarrow> 'g \<Rightarrow> error + ((product \<times> int) \<times> 'g)" where
  "select_product ops ps is_b2b g =
     bindE (py_randint ops 0 (int (length ps) - 1) g) (\<lambda>(k, g1).
     bindE (py_index ps k) (\<lambda>product.
     bindE (if is_b2b then py_randint ops 10 60 g1 else py_randint ops 1 3 g1) (\<lambda>(quantity, g2).
     Inr ((product, quantity), g2))))"

text \<open>\<^verbatim>\<open>item['product']['unit_price'] * item['quantity']\<close>, and the same for the unit cost.\<close>

definition item_price :: "product \<times> int \<Rightarrow> rat" where
  "item_price item = fl (p_unit_price (fst item) * fl (of_int (snd item)))"

definition item_cost :: "product \<times> int \<Rightarrow> rat" where
  "item_cost item = fl (p_avg_cogs (fst item) * fl (of_int (snd item)))"

text \<open>
  The totals of an order before rounding, from the selected products and the discount
  percent: the block \<^verbatim>\<open># Calculate order totals\<close> and the discount logic below it.
\<close>

definition order_subtotal :: "(product \<times> int) list \<Rightarrow> rat" where
  "order_subtotal selected_products = fsum (map item_price selected_products)"

definition order_discount_amount :: "(product \<times> int) list \<Rightarrow> int \<Rightarrow> rat" where
  "order_discount_amount selected_products discount_percent =
     fl (order_subtotal selected_products * fl (of_int discount_percent / 100))"

definition order_revenue :: "(product \<times> int) list \<Rightarrow> int \<Rightarrow> rat" where
  "order_revenue selected_products discount_percent =
     fl (order_subtotal selected_products
         - order_discount_amount selected_products discount_percent)"

definition order_total_cogs :: "(product \<times> int) list \<Rightarrow> rat" where
  "order_total_cogs selected_products = fsum (map item_cost selected_products)"

definition order_profit :: "(product \<times> int) list \<Rightarrow> int \<Rightarrow> rat" where
  "order_profit selected_products discount_percent =
     fl (order_revenue selected_products discount_percent - order_total_cogs selected_products)"

text \<open>The block \<^verbatim>\<open># Create order record\<close>: every monetary field rounded on its own.\<close>

definition order_record ::
  "customer \<Rightarrow> nat \<Rightarrow> datetime \<Rightarrow> (product \<times> int) list \<Rightarrow> int \<Rightarrow> order" where
  "order_record customer order_id order_date selected_products discount_percent =
     \<lparr>o_order_id = ''ORD'' @ zero_pad 7 order_id,
      o_customer_id = c_customer_id customer,
      o_order_date = Some (strftime_ymd order_date),
      o_subtotal = round2 (order_subtotal selected_products),
      o_discount_percent = discount_percent,
      o_discount_amount = round2 (order_discount_amount selected_products discount_percent),
      o_revenue = round2 (order_revenue selected_products discount_percent),
      o_total_cogs = Some (round2 (order_total_cogs selected_products)),
      o_profit = Some (round2 (order_profit selected_products discount_percent)),
      o_num_items = length selected_products\<rparr>"

text \<open>The block \<^verbatim>\<open># Data quality issues\<close>: two draws, the second one nulls both fields.\<close>

definition inject_nulls :: "'g rng \<Rightarrow> order \<Rightarrow> 'g \<Rightarrow> order \<times> 'g" where
  "inject_nulls ops order g =
     (let (u5, g5) = rng_random ops g;
          order = (if u5 < fl (5 / 1000) then order\<lparr>o_order_date := None\<rparr> else order);
          (u6, g6) = rng_random ops g5;
          order = (if u6 < fl (3 / 100)
                   then order\<lparr>o_total_cogs := None, o_profit := None\<rparr> else order)
      in (order, g6))"

text \<open>
  The body of the loop over \<^verbatim>\<open>enumerate(selected_products, 1)\<close>, from the
  unrounded subtotal and discount amount of the order. A zero order subtotal would make
  the share infinite or undefined, which the rationals cannot hold: the model stops
  there.
\<close>

definition make_line_item ::
  "order \<Rightarrow> customer \<Rightarrow> nat \<Rightarrow> rat \<Rightarrow> rat \<Rightarrow> nat \<times> (product \<times> int) \<Rightarrow> error + line_item" where
  "make_line_item order customer order_id subtotal discount_amount entry =
     (let item_idx = fst entry; item = snd entry;
          item_subtotal = item_price item
      in if subtotal = 0 then Inl NonFinite
         else
           let item_discount = fl (fl (item_subtotal / subtotal) * discount_amount);
               item_revenue = fl (item_subtotal - item_discount);
               item_cogs = item_cost item;
               item_profit = fl (item_revenue - item_cogs)
           in Inr \<lparr>li_line_item_id = ''LI'' @ zero_pad 7 order_id @ ''_'' @ digits item_idx,
                    li_order_id = o_order_id order,
                    li_customer_id = c_customer_id customer,
                    li_product_id = p_product_id (fst item),
                    li_product_name = p_name (fst item),
                    li_category = p_category (fst item),
                    li_quantity = snd item,
                    li_unit_price = p_unit_price (fst item),
                    li_subtotal = round2 item_subtotal,
                    li_discount_amount = round2 item_discount,
                    li_revenue = round2 item_revenue,
                    li_cogs = Some (round2 item_cogs),
                    li_profit = Some (round2 item_profit),
                    li_order_date = o_order_date order\<rparr>)"

text \<open>The block \<^verbatim>\<open># Create line items\<close>.\<close>

definition line_items_of ::
  "order \<Rightarrow> customer \<Rightarrow> nat \<Rightarrow> (product \<times> int) list \<Rightarrow> int \<Rightarrow> error + line_item list" where
  "line_items_of order customer order_id selected_products discount_percent =
     map_err (make_line_item order customer order_id (order_subtotal selected_products)
                (order_discount_amount selected_products discount_percent))
       (zip [1 ..< Suc (length selected_products)] selected_products)"

text \<open>The body of the loop \<^verbatim>\<open>for _ in range(num_orders)\<close>: one order and its line items.\<close>

definition one_order ::
  "'g rng \<Rightarrow> product list \<Rightarrow> customer \<Rightarrow> bool \<Rightarrow> datetime \<Rightarrow> nat \<Rightarrow> 'g
     \<Rightarrow> error + ((order \<times> line_item list) \<times> 'g)" where
  "one_order ops ps customer is_b2b acq_date order_id g =
     (let end_date = datetime_ymd 2024 11 30;
          days_since_acq = td_days (end_date - acq_date)
      in bindE (timedelta_days (min days_since_acq 730)) (\<lambda>span.
         bindE (datetime_add acq_date span) (\<lambda>window_end.
         bindE (random_date ops acq_date window_end g) (\<lambda>(order_date, g1).
         bindE (if is_b2b then py_randint ops 3 8 g1 else py_randint ops 1 3 g1)
           (\<lambda>(num_products, g2).
         bindE (for_each (\<lambda>_. select_product ops ps is_b2b) [0 ..< nat num_products] g2)
           (\<lambda>(selected_products, g3).
         bindE (if is_b2b then weighted_choice ops [0, 5, 10, 15, 20] [20, 30, 30, 15, 5] g3
                else weighted_choice ops [0, 10, 15] [70, 25, 5] g3)
           (\<lambda>(discount_percent, g4).
         let (order, g6) =
               inject_nulls ops
                 (order_record customer order_id order_date selected_products discount_percent) g4
         in bindE (line_items_of order customer order_id selected_products discount_percent)
              (\<lambda>line_items. Inr ((order, line_items), g6)))))))))"

text \<open>The lists being appended to, and the running order number.\<close>

record tables =
  orders_data :: "order list"
  line_items_data :: "line_item list"
  order_id :: nat

fun orders_loop ::
  "'g rng \<Rightarrow> product list \<Rightarrow> customer \<Rightarrow> bool \<Rightarrow> datetime \<Rightarrow> nat \<Rightarrow> tables \<Rightarrow> 'g
     \<Rightarrow> error + (tables \<times> 'g)" where
  "orders_loop ops ps customer is_b2b acq_date 0 st g = Inr (st, g)"
| "orders_loop ops ps customer is_b2b acq_date (Suc n) st g =
     bindE (one_order ops ps customer is_b2b acq_date (order_id st) g) (\<lambda>((order, line_items), g').
     orders_loop ops ps customer is_b2b acq_date n
       \<lparr>orders_data = orders_data st @ [order],
        line_items_data = line_items_data st @ line_items,
        order_id = order_id st + 1\<rparr> g')"

text \<open>The body of the loop over the customer table.\<close>

definition customer_orders ::
  "'g rng \<Rightarrow> product list \<Rightarrow> customer \<Rightarrow> tables \<Rightarrow> 'g \<Rightarrow> error + (tables \<times> 'g)" where
  "customer_orders ops ps customer st g =
     (let is_b2b = (c_segment customer = ''B2B'')
      in bindE (case c_acquisition_date customer of
                  None \<Rightarrow> Inr (datetime_ymd 2023 1 1)
                | Some day \<Rightarrow> strptime_ymd day) (\<lambda>acq_date.
         bindE (if is_b2b then py_randint ops 12 36 g
                else if c_status customer = ''Active'' then py_randint ops 2 10 g
                else if c_status customer = ''Churned'' then py_randint ops 1 3 g
                else py_randint ops 2 7 g) (\<lambda>(num_orders, g1).
         orders_loop ops ps customer is_b2b acq_date (nat num_orders) st g1)))"

fun customers_loop ::
  "'g rng \<Rightarrow> product list \<Rightarrow> customer list \<Rightarrow> tables \<Rightarrow> 'g \<Rightarrow> error + (tables \<times> 'g)" where
  "customers_loop ops ps [] st g = Inr (st, g)"
| "customers_loop ops ps (customer # cs) st g =
     bindE (customer_orders ops ps customer st g) (\<lambda>(st', g').
     customers_loop ops ps cs st' g')"

definition generate_orders :: "'g rng \<Rightarrow> generator \<Rightarrow> 'g \<Rightarrow> error + (generator \<times> 'g)" where
  "generate_orders ops self g =
     (case (customers self, products self) of
        (Some cs, Some ps) \<Rightarrow>
          bindE (customers_loop ops ps cs
                   \<lparr>orders_data = [], line_items_data = [], order_id = 1\<rparr> g) (\<lambda>(st, g').
          Inr (self\<lparr>orders := Some (orders_data st),
                    order_line_items := Some (line_items_data st)\<rparr>, g'))
      | _ \<Rightarrow> Inl ValueError)"

subsection \<open>\<^verbatim>\<open>generate_all\<close> and the main program\<close>

text \<open>
  The three generation stages in order, with the two customer counts as parameters;
  \<^verbatim>\<open>generate_all\<close> runs them with the defaults. The statistics, the printing and the
  CSV export read the tables and change nothing; they are left out.
\<close>

definition pipeline ::
  "'g rng \<Rightarrow> int \<Rightarrow> int \<Rightarrow> generator \<Rightarrow> 'g \<Rightarrow> error + (generator \<times> 'g)" where
  "pipeline ops num_d2c num_b2b self g =
     bindE (generate_customers ops num_d2c num_b2b (generate_products self) g) (\<lambda>(self1, g1).
     generate_orders ops self1 g1)"

definition generate_all :: "'g rng \<Rightarrow> generator \<Rightarrow> 'g \<Rightarrow> error + (generator \<times> 'g)" where
  "generate_all ops self g = pipeline ops 50000 200 self g"

text \<open>A complete run: seed the random source, create the generator, run the stages.\<close>

definition run :: "'g rng \<Rightarrow> int \<Rightarrow> int \<Rightarrow> int \<Rightarrow> error + (generator \<times> 'g)" where
  "run ops seed num_d2c num_b2b = pipeline ops num_d2c num_b2b init (rng_seed ops seed)"

definition main :: "'g rng \<Rightarrow> error + (generator \<times> 'g)" where
  "main ops = generate_all ops init (rng_seed ops 42)"

subsection \<open>A small run\<close>

text \<open>
  Test data: a scripted run with one D2C customer and two orders. The draws are chosen
  so that the customer is acquired on 2023-06-17 (day 738688) with status Churned, the
  first order holds two line items of the product P001 at a discount of ten percent, and
  the second order holds one line item and loses its cost fields to the second
  data-quality draw. The tables below are what the program stores for this run; a
  monetary value \<open>fl (n / 100)\<close> is the float nearest to \<open>n\<close> cents.
\<close>

definition example_customer :: customer where
  "example_customer = \<lparr>c_customer_id = ''C000001'', c_segment = ''D2C'',
     c_acquisition_date = Some 738688, c_channel = Some ''Paid Ads'', c_country = ''US'',
     c_status = ''Churned'', c_company_name = None, c_account_tier = None\<rparr>"

definition example_input :: generator where
  "example_input = \<lparr>products = Some products_data, customers = Some [example_customer],
     orders = None, order_line_items = None\<rparr>"

definition example_tape :: "rat list \<times> int list" where
  "example_tape = ([1 / 2, 1 / 2, 0, 0, 1 / 2, 1 / 2,
                    1 / 2, 3 / 4, 1 / 2, 1 / 2,
                    1 / 4, 0, 1 / 2, 0],
                   [2, 2, 0, 2, 0, 3, 1, 0, 1])"

definition example_order_tape :: "rat list \<times> int list" where
  "example_order_tape =
     ([1 / 2, 3 / 4, 1 / 2, 1 / 2, 1 / 4, 0, 1 / 2, 0], [2, 2, 0, 2, 0, 3, 1, 0, 1])"

definition example_selected1 :: "(product \<times> int) list" where
  "example_selected1 = [(products_data ! 0, 2), (products_data ! 0, 3)]"

definition example_selected2 :: "(product \<times> int) list" where
  "example_selected2 = [(products_data ! 0, 1)]"

definition example_order1 :: order where
  "example_order1 = \<lparr>o_order_id = ''ORD0000001'', o_customer_id = ''C000001'',
     o_order_date = Some 738954, o_subtotal = fl (9495 / 100), o_discount_percent = 10,
     o_discount_amount = fl (949 / 100), o_revenue = fl (8545 / 100),
     o_total_cogs = Some (fl (4250 / 100)), o_profit = Some (fl (4295 / 100)),
     o_num_items = 2\<rparr>"

definition example_order2 :: order where
  "example_order2 = \<lparr>o_order_id = ''ORD0000002'', o_customer_id = ''C000001'',
     o_order_date = Some 738821, o_subtotal = fl (1899 / 100), o_discount_percent = 0,
     o_discount_amount = 0, o_revenue = fl (1899 / 100),
     o_total_cogs = None, o_profit = None, o_num_items = 1\<rparr>"

definition example_item ::
  "string \<Rightarrow> string \<Rightarrow> int option \<Rightarrow> int \<Rightarrow> rat \<Rightarrow> rat \<Rightarrow> rat \<Rightarrow> rat \<Rightarrow> rat \<Rightarrow> line_item" where
  "example_item lid oid date quantity subtotal discount revenue cogs profit =
     \<lparr>li_line_item_id = lid, li_order_id = oid, li_customer_id = ''C000001'',
      li_product_id = ''P001'', li_product_name = ''Organic Green Tea'',
      li_category = ''Beverage'', li_quantity = quantity, li_unit_price = fl (1899 / 100),
      li_subtotal = fl (subtotal / 100), li_discount_amount = fl (discount / 100),
      li_revenue = fl (revenue / 100), li_cogs = Some (fl (cogs / 100)),
      li_profit = Some (fl (profit / 100)), li_order_date = date\<rparr>"

definition example_items :: "line_item list" where
  "example_items =
     [example_item ''LI0000001_1'' ''ORD0000001'' (Some 738954) 2 3798 380 3418 1700 1718,
      example_item ''LI0000001_2'' ''ORD0000001'' (Some 738954) 3 5697 570 5127 2550 2577,
      example_item ''LI0000002_1'' ''ORD0000002'' (Some 738821) 1 1899 0 1899 850 1049]"

definition example_result :: generator where
  "example_result = \<lparr>products = Some products_data, customers = Some [example_customer],
     orders = Some [example_order1, example_order2], order_line_items = Some example_items\<rparr>"

section \<open>Properties\<close>

subsection \<open>Rounding to the nearest integer and the binary exponent\<close>

lemma rhe_of_int: "rhe (of_int n) = n"
  by (simp add: rhe_def)

lemma rhe_mono: "x \<le> y \<Longrightarrow> rhe x \<le> rhe y"
proof -
  assume xy: "x \<le> y"
  have fl: "\<lfloor>x\<rfloor> \<le> \<lfloor>y\<rfloor>" using xy by (rule floor_mono)
  show ?thesis
  proof (cases "\<lfloor>x\<rfloor> = \<lfloor>y\<rfloor>")
    case True
    with xy show ?thesis by (auto simp: rhe_def Let_def)
  next
    case False
    with fl have "\<lfloor>x\<rfloor> + 1 \<le> \<lfloor>y\<rfloor>" by simp
    moreover have "rhe x \<le> \<lfloor>x\<rfloor> + 1" by (simp add: rhe_def Let_def)
    moreover have "\<lfloor>y\<rfloor> \<le> rhe y" by (simp add: rhe_def Let_def)
    ultimately show ?thesis by linarith
  qed
qed

lemma rhe_err: "\<bar>of_int (rhe x) - x\<bar> \<le> 1 / 2"
proof -
  have "of_int \<lfloor>x\<rfloor> \<le> x" "x < of_int \<lfloor>x\<rfloor> + 1" by linarith+
  then show ?thesis by (auto simp: rhe_def Let_def)
qed

lemma expo_bounds:
  assumes "x \<noteq> 0"
  shows "2 powi expo x \<le> \<bar>x\<bar>" and "\<bar>x\<bar> < 2 powi (expo x + 1)"
proof -
  obtain p q where pq: "quotient_of \<bar>x\<bar> = (p, q)" by (cases "quotient_of \<bar>x\<bar>")
  have q: "0 < q" using pq by (rule quotient_of_denom_pos)
  have ax: "\<bar>x\<bar> = of_int p / of_int q" using pq by (rule quotient_of_div)
  have "0 < \<bar>x\<bar>" using assms by simp
  with ax q have p: "0 < p" by (simp add: zero_less_divide_iff)
  define d where "d = bitlen p - bitlen q"
  have bp: "(2::rat) powi (bitlen p - 1) \<le> of_int p" "of_int p < (2::rat) powi bitlen p"
  proof -
    from bitlen_bounds[OF p] have a: "2 ^ nat (bitlen p - 1) \<le> p" and b: "p < 2 ^ nat (bitlen p)" by auto
    have ge: "1 \<le> bitlen p" using p by (auto simp: bitlen_alt_def)
    have "(of_int (2 ^ nat (bitlen p - 1)) :: rat) \<le> of_int p" using a by (simp only: of_int_le_iff)
    then show "(2::rat) powi (bitlen p - 1) \<le> of_int p" using ge by (simp add: power_int_def)
    have "(of_int p :: rat) < of_int (2 ^ nat (bitlen p))" using b by (simp only: of_int_less_iff)
    then show "of_int p < (2::rat) powi bitlen p" using ge by (simp add: power_int_def)
  qed
  have bq: "(2::rat) powi (bitlen q - 1) \<le> of_int q" "of_int q < (2::rat) powi bitlen q"
  proof -
    from bitlen_bounds[OF q] have a: "2 ^ nat (bitlen q - 1) \<le> q" and b: "q < 2 ^ nat (bitlen q)" by auto
    have ge: "1 \<le> bitlen q" using q by (auto simp: bitlen_alt_def)
    have "(of_int (2 ^ nat (bitlen q - 1)) :: rat) \<le> of_int q" using a by (simp only: of_int_le_iff)
    then show "(2::rat) powi (bitlen q - 1) \<le> of_int q" using ge by (simp add: power_int_def)
    have "(of_int q :: rat) < of_int (2 ^ nat (bitlen q))" using b by (simp only: of_int_less_iff)
    then show "of_int q < (2::rat) powi bitlen q" using ge by (simp add: power_int_def)
  qed
  have qpos: "(0::rat) < of_int q" using q by simp
  have up: "\<bar>x\<bar> < 2 powi (d + 1)"
  proof -
    have "of_int p < (2::rat) powi bitlen p" by (rule bp)
    also have "\<dots> = 2 powi (d + 1) * 2 powi (bitlen q - 1)"
      by (simp add: d_def power_int_add[symmetric])
    also have "\<dots> \<le> 2 powi (d + 1) * of_int q"
      using bq(1) by (simp add: mult_left_mono)
    finally show ?thesis using qpos by (simp add: ax pos_divide_less_eq)
  qed
  have lo: "2 powi (d - 1) < \<bar>x\<bar>"
  proof -
    have "2 powi (d - 1) * of_int q < (2::rat) powi (d - 1) * 2 powi bitlen q"
      using bq(2) by (simp add: mult_strict_left_mono)
    also have "\<dots> = 2 powi (bitlen p - 1)"
      by (simp add: d_def power_int_add[symmetric])
    also have "\<dots> \<le> of_int p" by (rule bp)
    finally show ?thesis using qpos by (simp add: ax pos_less_divide_eq)
  qed
  have e: "expo x = (if 2 powi d \<le> \<bar>x\<bar> then d else d - 1)"
    by (simp add: expo_def pq d_def Let_def)
  show "2 powi expo x \<le> \<bar>x\<bar>" using lo by (simp add: e)
  show "\<bar>x\<bar> < 2 powi (expo x + 1)" using up by (auto simp: e)
qed

lemma powi2_mono: "a \<le> b \<Longrightarrow> (2::rat) powi a \<le> 2 powi b"
  by (rule power_int_increasing) simp_all

lemma powi2_less_cancel: "(2::rat) powi a < 2 powi b \<Longrightarrow> a < b"
  using powi2_mono[of b a] by (cases "a < b") auto

lemma expo_less: "x \<noteq> 0 \<Longrightarrow> \<bar>x\<bar> < 2 powi k \<Longrightarrow> expo x < k"
  using expo_bounds(1)[of x] powi2_less_cancel[of "expo x" k] by linarith

lemma expo_ge: "x \<noteq> 0 \<Longrightarrow> 2 powi k \<le> \<bar>x\<bar> \<Longrightarrow> k \<le> expo x"
  using expo_bounds(2)[of x] powi2_less_cancel[of k "expo x + 1"] by linarith

lemma expo_mono: "x \<noteq> 0 \<Longrightarrow> \<bar>x\<bar> \<le> \<bar>y\<bar> \<Longrightarrow> expo x \<le> expo y"
proof -
  assume a: "x \<noteq> 0" "\<bar>x\<bar> \<le> \<bar>y\<bar>"
  then have y: "y \<noteq> 0" by auto
  have "2 powi expo x \<le> \<bar>y\<bar>" using expo_bounds(1)[OF a(1)] a(2) by linarith
  then show ?thesis using y by (rule expo_ge[rotated])
qed

subsection \<open>Binary64 rounding\<close>

lemma on_grid_coarser: "e' \<le> e \<Longrightarrow> on_grid e x \<Longrightarrow> on_grid e' x"
proof -
  assume le: "e' \<le> e" and "on_grid e x"
  then obtain k :: int where x: "x = of_int k * 2 powi e" by (auto simp: on_grid_def)
  have "(2::rat) powi e = 2 powi (e - e') * 2 powi e'"
    by (simp add: power_int_add[symmetric])
  also have "(2::rat) powi (e - e') = of_int (2 ^ nat (e - e'))"
    using le by (simp add: power_int_def)
  finally have "x = of_int (k * 2 ^ nat (e - e')) * 2 powi e'"
    by (simp add: x)
  then show ?thesis unfolding on_grid_def by blast
qed

lemma on_grid_0: "on_grid 0 (of_int n)"
  by (auto simp: on_grid_def)

lemma on_grid_int: "e \<le> 0 \<Longrightarrow> on_grid e (of_int n)"
  using on_grid_coarser[OF _ on_grid_0] by blast

lemma on_grid_diff: "on_grid e x \<Longrightarrow> on_grid e y \<Longrightarrow> on_grid e (x - y)"
proof -
  assume "on_grid e x" "on_grid e y"
  then obtain k l :: int where "x = of_int k * 2 powi e" "y = of_int l * 2 powi e"
    by (auto simp: on_grid_def)
  then have "x - y = of_int (k - l) * 2 powi e" by (simp add: algebra_simps)
  then show ?thesis unfolding on_grid_def by blast
qed

lemma powi2_pos: "(0::rat) < 2 powi e"
  by (simp add: zero_less_power_int)

lemma fl_0: "fl 0 = 0" by (simp add: fl_def)

lemma fl_fix: "on_grid (ulp_exp x) x \<Longrightarrow> fl x = x"
proof (cases "x = 0")
  case True then show ?thesis by (simp add: fl_def)
next
  case False
  assume "on_grid (ulp_exp x) x"
  then obtain k :: int where x: "x = of_int k * 2 powi ulp_exp x" by (auto simp: on_grid_def)
  have nz: "(2::rat) powi ulp_exp x \<noteq> 0" using powi2_pos[of "ulp_exp x"] by simp
  have "x / 2 powi ulp_exp x = of_int k" using nz by (subst x) simp
  then have "rhe (x / 2 powi ulp_exp x) = k" by (simp add: rhe_of_int)
  then show ?thesis using False x by (simp add: fl_def Let_def)
qed

lemma ulp_exp_small: "x \<noteq> 0 \<Longrightarrow> \<bar>x\<bar> < 2 ^ 53 \<Longrightarrow> ulp_exp x \<le> 0"
proof -
  assume a: "x \<noteq> 0" "\<bar>x\<bar> < 2 ^ 53"
  have "\<bar>x\<bar> < 2 powi 53" using a(2) by (simp add: power_int_def)
  then have "expo x < 53" using a(1) by (rule expo_less[rotated])
  then show ?thesis by (simp add: ulp_exp_def)
qed

lemma ulp_exp_mono: "x \<noteq> 0 \<Longrightarrow> \<bar>x\<bar> \<le> \<bar>y\<bar> \<Longrightarrow> ulp_exp x \<le> ulp_exp y"
  using expo_mono[of x y] by (simp add: ulp_exp_def)

lemma fl_of_int: "\<bar>n\<bar> \<le> 2 ^ 53 \<Longrightarrow> fl (of_int n) = of_int n"
proof -
  assume n: "\<bar>n\<bar> \<le> 2 ^ 53"
  show ?thesis
  proof (cases "\<bar>n\<bar> = 2 ^ 53")
    case True
    let ?x = "of_int n :: rat"
    have ax: "\<bar>?x\<bar> = 2 powi 53" using True
      by (metis of_int_abs of_int_numeral of_int_power power_int_numeral numeral_eq_iff of_int_eq_iff power_int_of_nat of_nat_numeral)
    have nz: "?x \<noteq> 0" using True by auto
    have "expo ?x < 54" using nz by (rule expo_less) (simp add: ax)
    moreover have "53 \<le> expo ?x" using nz by (rule expo_ge) (simp add: ax)
    ultimately have u: "ulp_exp ?x = 1" by (simp add: ulp_exp_def)
    have "n = 2 ^ 53 \<or> n = - (2 ^ 53)" using True by linarith
    then have "?x = of_int (n div 2) * 2 powi 1" by auto
    then have "on_grid (ulp_exp ?x) ?x" unfolding u on_grid_def by blast
    then show ?thesis by (rule fl_fix)
  next
    case False
    show ?thesis
    proof (cases "n = 0")
      case True then show ?thesis by (simp add: fl_0)
    next
      case nz: False
      have "\<bar>n\<bar> < 2 ^ 53" using n False by linarith
      then have "\<bar>of_int n :: rat\<bar> < 2 ^ 53"
        by (metis of_int_abs of_int_less_iff of_int_numeral of_int_power)
      then have "ulp_exp (of_int n) \<le> 0" using nz by (intro ulp_exp_small) auto
      then have "on_grid (ulp_exp (of_int n)) (of_int n)" by (rule on_grid_int)
      then show ?thesis by (rule fl_fix)
    qed
  qed
qed

lemma fl_le_int:
  assumes "\<bar>x\<bar> < 2 ^ 53" "x \<le> of_int n"
  shows "fl x \<le> of_int n"
proof (cases "x = 0")
  case True then show ?thesis using assms by (simp add: fl_0)
next
  case False
  define e where "e = ulp_exp x"
  have e: "e \<le> 0" unfolding e_def using False assms(1) by (rule ulp_exp_small)
  define g :: rat where "g = 2 powi e"
  have g: "0 < g" unfolding g_def by (rule powi2_pos)
  obtain k :: int where k: "of_int n = of_int k * g"
    using on_grid_int[OF e, of n] unfolding on_grid_def g_def by blast
  have "x / g \<le> of_int n / g" using assms(2) g by (simp add: divide_right_mono)
  also have "\<dots> = of_int k" using g by (simp add: k)
  finally have "rhe (x / g) \<le> k" using rhe_mono[of "x / g" "of_int k"] by (simp add: rhe_of_int)
  then have "(of_int (rhe (x / g)) :: rat) \<le> of_int k" by (simp only: of_int_le_iff)
  then have "of_int (rhe (x / g)) * g \<le> of_int k * g" using g by (simp add: mult_right_mono)
  then show ?thesis using False by (simp add: fl_def Let_def e_def[symmetric] g_def[symmetric] k)
qed

lemma fl_ge_int:
  assumes "\<bar>x\<bar> < 2 ^ 53" "of_int n \<le> x"
  shows "of_int n \<le> fl x"
proof (cases "x = 0")
  case True then show ?thesis using assms by (simp add: fl_0)
next
  case False
  define e where "e = ulp_exp x"
  have e: "e \<le> 0" unfolding e_def using False assms(1) by (rule ulp_exp_small)
  define g :: rat where "g = 2 powi e"
  have g: "0 < g" unfolding g_def by (rule powi2_pos)
  obtain k :: int where k: "of_int n = of_int k * g"
    using on_grid_int[OF e, of n] unfolding on_grid_def g_def by blast
  have "of_int k = of_int n / g" using g by (simp add: k)
  also have "\<dots> \<le> x / g" using assms(2) g by (simp add: divide_right_mono)
  finally have "k \<le> rhe (x / g)" using rhe_mono[of "of_int k" "x / g"] by (simp add: rhe_of_int)
  then have "(of_int k :: rat) \<le> of_int (rhe (x / g))" by (simp only: of_int_le_iff)
  then have "of_int k * g \<le> of_int (rhe (x / g)) * g" using g by (simp add: mult_right_mono)
  then show ?thesis using False by (simp add: fl_def Let_def e_def[symmetric] g_def[symmetric] k)
qed

lemma powi2_shift53: "(2::rat) powi (E + 1) = 2 ^ 53 * 2 powi (E - 52)"
proof -
  have e: "E + 1 = 53 + (E - 52)" by simp
  show ?thesis unfolding e by (subst power_int_add) simp_all
qed

lemma powi2_Suc: "(2::rat) powi (e + 1) = 2 * 2 powi e"
  by (simp add: power_int_add)

lemma of_int_abs_less_53: "\<bar>k\<bar> < 2 ^ 53 \<Longrightarrow> \<bar>of_int k :: rat\<bar> < 2 ^ 53"
  by (metis of_int_abs of_int_less_iff of_int_numeral of_int_power)

lemma fl_on_grid: "on_grid (ulp_exp (fl y)) (fl y)"
proof (cases "fl y = 0")
  case True
  then show ?thesis by (auto simp: on_grid_def)
next
  case rnz: False
  then have ynz: "y \<noteq> 0" by (auto simp: fl_0)
  define E where "E = max (expo y) (- 1022)"
  define e where "e = ulp_exp y"
  have eE: "e = E - 52" by (simp add: e_def E_def ulp_exp_def)
  define g :: rat where "g = 2 powi e"
  have g: "0 < g" unfolding g_def by (rule powi2_pos)
  define k where "k = rhe (y / g)"
  have r: "fl y = of_int k * g" using ynz by (simp add: fl_def Let_def k_def g_def e_def)
  have "\<bar>y\<bar> < 2 powi (expo y + 1)" using ynz by (rule expo_bounds)
  also have "\<dots> \<le> 2 powi (E + 1)" by (rule powi2_mono) (simp add: E_def)
  also have "\<dots> = 2 ^ 53 * g" unfolding g_def eE by (rule powi2_shift53)
  finally have ylt: "\<bar>y\<bar> < 2 ^ 53 * g" .
  have b: "y / g \<le> of_int (2 ^ 53)" "of_int (- (2 ^ 53)) \<le> y / g"
    using ylt g by (auto simp: pos_divide_le_eq pos_le_divide_eq)
  have k53: "k \<le> 2 ^ 53" "- (2 ^ 53) \<le> k"
    using rhe_mono[OF b(1)] rhe_mono[OF b(2)] unfolding k_def rhe_of_int by simp_all
  show ?thesis
  proof (cases "\<bar>k\<bar> = 2 ^ 53")
    case True
    then have "\<bar>of_int k :: rat\<bar> = 2 ^ 53"
      by (metis of_int_abs of_int_numeral of_int_power)
    then have "\<bar>fl y\<bar> = 2 ^ 53 * g" using g by (simp add: r abs_mult)
    then have ar: "\<bar>fl y\<bar> = 2 powi (E + 1)" unfolding g_def eE by (simp only: powi2_shift53)
    have "E + 1 \<le> expo (fl y)" using rnz by (rule expo_ge) (simp add: ar)
    moreover have "\<bar>fl y\<bar> < 2 powi ((E + 1) + 1)"
      using powi2_pos[of "E + 1"] unfolding ar powi2_Suc[of "E + 1"] by linarith
    then have "expo (fl y) < (E + 1) + 1" using rnz by (intro expo_less)
    ultimately have u: "ulp_exp (fl y) = e + 1" by (simp add: ulp_exp_def eE E_def)
    have "k = 2 ^ 53 \<or> k = - (2 ^ 53)" using True by linarith
    then have "of_int k = (of_int (k div 2) :: rat) * 2" by auto
    then have "fl y = of_int (k div 2) * 2 powi (e + 1)"
      by (simp add: r g_def powi2_Suc)
    then show ?thesis unfolding u on_grid_def by blast
  next
    case False
    then have "\<bar>k\<bar> < 2 ^ 53" using k53 by linarith
    then have "\<bar>of_int k :: rat\<bar> < 2 ^ 53" by (rule of_int_abs_less_53)
    then have "\<bar>fl y\<bar> < 2 ^ 53 * g" using g by (simp add: r abs_mult)
    also have "\<dots> = 2 powi (E + 1)" unfolding g_def eE by (simp only: powi2_shift53)
    finally have "expo (fl y) < E + 1" using rnz by (intro expo_less)
    then have "ulp_exp (fl y) \<le> e" by (simp add: ulp_exp_def eE E_def)
    moreover have "on_grid e (fl y)" unfolding on_grid_def r g_def by blast
    ultimately show ?thesis by (rule on_grid_coarser)
  qed
qed

lemma fl_idem: "fl (fl y) = fl y"
  using fl_on_grid by (rule fl_fix)

lemma fl_fixed_on_grid: "fl x = x \<Longrightarrow> on_grid (ulp_exp x) x"
  using fl_on_grid[of x] by simp

lemma fsub_exact:
  assumes "fl r = r" "0 \<le> w" "of_int w \<le> r" "r < 2 ^ 53"
  shows "fl (r - of_int w) = r - of_int w"
proof (cases "r - of_int w = 0")
  case True then show ?thesis by (simp add: fl_0)
next
  case False
  have w0: "(0::rat) \<le> of_int w" using assms(2) by simp
  then have rnz: "r \<noteq> 0" and ab: "\<bar>r - of_int w\<bar> \<le> \<bar>r\<bar>" and ar: "\<bar>r\<bar> < 2 ^ 53"
    using False assms(3,4) by auto
  have le: "ulp_exp (r - of_int w) \<le> ulp_exp r" using False ab by (rule ulp_exp_mono)
  have e0: "ulp_exp r \<le> 0" using rnz ar by (rule ulp_exp_small)
  have "on_grid (ulp_exp r) (r - of_int w)"
    using fl_fixed_on_grid[OF assms(1)] on_grid_int[OF e0] by (rule on_grid_diff)
  with le have "on_grid (ulp_exp (r - of_int w)) (r - of_int w)" by (rule on_grid_coarser)
  then show ?thesis by (rule fl_fix)
qed

text \<open>Rounding is monotone on the non-negative numbers, and fixes the powers of two.\<close>

lemma fl_nonneg: "0 \<le> x \<Longrightarrow> 0 \<le> fl x"
proof (cases "x = 0")
  case True then show ?thesis by (simp add: fl_0)
next
  case False
  assume x: "0 \<le> x"
  define g :: rat where "g = 2 powi ulp_exp x"
  have g: "0 < g" unfolding g_def by (rule powi2_pos)
  have "of_int 0 \<le> x / g" using x g by simp
  then have "0 \<le> rhe (x / g)" using rhe_mono[of "of_int 0" "x / g"] by (simp only: rhe_of_int)
  then have "(0::rat) \<le> of_int (rhe (x / g)) * g" using g by simp
  then show ?thesis using False by (simp add: fl_def Let_def g_def)
qed

lemma fl_le_grid:
  assumes "x \<noteq> 0" "x \<le> c" "on_grid (ulp_exp x) c"
  shows "fl x \<le> c"
proof -
  define g :: rat where "g = 2 powi ulp_exp x"
  have g: "0 < g" unfolding g_def by (rule powi2_pos)
  obtain k :: int where k: "c = of_int k * g"
    using assms(3) unfolding on_grid_def g_def by blast
  have "x / g \<le> c / g" using assms(2) g by (simp add: divide_right_mono)
  also have "\<dots> = of_int k" using g by (simp add: k)
  finally have "rhe (x / g) \<le> k" using rhe_mono[of "x / g" "of_int k"] by (simp add: rhe_of_int)
  then have "(of_int (rhe (x / g)) :: rat) \<le> of_int k" by (simp only: of_int_le_iff)
  then have "of_int (rhe (x / g)) * g \<le> of_int k * g" using g by (simp add: mult_right_mono)
  then show ?thesis using assms(1) by (simp add: fl_def Let_def g_def[symmetric] k)
qed

lemma fl_ge_grid:
  assumes "x \<noteq> 0" "c \<le> x" "on_grid (ulp_exp x) c"
  shows "c \<le> fl x"
proof -
  define g :: rat where "g = 2 powi ulp_exp x"
  have g: "0 < g" unfolding g_def by (rule powi2_pos)
  obtain k :: int where k: "c = of_int k * g"
    using assms(3) unfolding on_grid_def g_def by blast
  have "of_int k = c / g" using g by (simp add: k)
  also have "\<dots> \<le> x / g" using assms(2) g by (simp add: divide_right_mono)
  finally have "k \<le> rhe (x / g)" using rhe_mono[of "of_int k" "x / g"] by (simp add: rhe_of_int)
  then have "(of_int k :: rat) \<le> of_int (rhe (x / g))" by (simp only: of_int_le_iff)
  then have "of_int k * g \<le> of_int (rhe (x / g)) * g" using g by (simp add: mult_right_mono)
  then show ?thesis using assms(1) by (simp add: fl_def Let_def g_def[symmetric] k)
qed

lemma on_grid_pow: "e \<le> E \<Longrightarrow> on_grid e (2 powi E)"
proof -
  have "on_grid E (2 powi E)" unfolding on_grid_def by (rule exI[of _ 1]) simp
  then show "e \<le> E \<Longrightarrow> on_grid e (2 powi E)" by (rule on_grid_coarser[rotated])
qed

lemma fl_mono_nonneg:
  assumes "0 \<le> x" "x \<le> y"
  shows "fl x \<le> fl y"
proof (cases "x = 0")
  case True
  then show ?thesis using fl_nonneg[of y] assms by (simp add: fl_0)
next
  case False
  then have x: "0 < x" and y: "0 < y" and ynz: "y \<noteq> 0" using assms by auto
  have ab: "\<bar>x\<bar> \<le> \<bar>y\<bar>" using assms by simp
  have le: "ulp_exp x \<le> ulp_exp y" using False ab by (rule ulp_exp_mono)
  show ?thesis
  proof (cases "ulp_exp x = ulp_exp y")
    case True
    define g :: rat where "g = 2 powi ulp_exp x"
    have g: "0 < g" unfolding g_def by (rule powi2_pos)
    have "x / g \<le> y / g" using assms(2) g by (simp add: divide_right_mono)
    then have "rhe (x / g) \<le> rhe (y / g)" by (rule rhe_mono)
    then have "(of_int (rhe (x / g)) :: rat) \<le> of_int (rhe (y / g))" by (simp only: of_int_le_iff)
    then have "of_int (rhe (x / g)) * g \<le> of_int (rhe (y / g)) * g" using g by (simp add: mult_right_mono)
    then show ?thesis using False ynz by (simp add: fl_def Let_def True[symmetric] g_def[symmetric])
  next
    case ne: False
    with le have lt: "ulp_exp x < ulp_exp y" by simp
    define E where "E = expo y"
    have E: "- 1022 < E" "expo x < E" using lt by (auto simp: ulp_exp_def E_def max_def split: if_splits)
    have uy: "ulp_exp y \<le> E" using E by (simp add: ulp_exp_def E_def)
    have ux: "ulp_exp x \<le> E" using lt uy by simp
    have "\<bar>x\<bar> < 2 powi (expo x + 1)" using False by (rule expo_bounds)
    also have "\<dots> \<le> 2 powi E" using E(2) by (intro powi2_mono) simp
    finally have xE: "x \<le> 2 powi E" using x by simp
    have "2 powi E \<le> \<bar>y\<bar>" unfolding E_def using ynz by (rule expo_bounds)
    then have yE: "2 powi E \<le> y" using y by simp
    have "fl x \<le> 2 powi E" using False xE on_grid_pow[OF ux] by (rule fl_le_grid)
    also have "\<dots> \<le> fl y" using ynz yE on_grid_pow[OF uy] by (rule fl_ge_grid)
    finally show ?thesis .
  qed
qed

lemma expo_pow: "expo (2 powi n) = n"
proof -
  have nz: "(2::rat) powi n \<noteq> 0" using powi2_pos[of n] by simp
  have a: "\<bar>(2::rat) powi n\<bar> = 2 powi n" using powi2_pos[of n] by simp
  have "\<bar>(2::rat) powi n\<bar> < 2 powi (n + 1)"
    using powi2_pos[of n] unfolding a powi2_Suc by linarith
  then have "expo (2 powi n) < n + 1" using nz by (intro expo_less)
  moreover have "n \<le> expo (2 powi n)" using nz by (rule expo_ge) (simp add: a)
  ultimately show ?thesis by simp
qed

lemma fl_pow: "- 1074 \<le> n \<Longrightarrow> fl (2 powi n) = 2 powi n"
proof -
  assume n: "- 1074 \<le> n"
  have "ulp_exp (2 powi n) \<le> n" using n by (simp add: ulp_exp_def expo_pow)
  then have "on_grid (ulp_exp (2 powi n)) (2 powi n)" by (rule on_grid_pow)
  then show ?thesis by (rule fl_fix)
qed

lemma float_of_int_below:
  assumes "0 \<le> n" "n < 2 ^ 1023"
  shows "float_of_int n = Inr (fl (of_int n))"
proof -
  have "(of_int n :: rat) \<le> of_int (2 ^ 1023)" using assms(2) by (simp only: of_int_le_iff)
  also have "\<dots> = 2 powi 1023" by (simp add: power_int_def)
  finally have "fl (of_int n) \<le> fl (2 powi 1023)" using assms(1) by (intro fl_mono_nonneg) simp_all
  also have "\<dots> = 2 powi 1023" by (rule fl_pow) simp
  also have "\<dots> < 2 powi 1024" by (simp add: power_int_def)
  finally have "fl (of_int n) < 2 ^ 1024" by (simp add: power_int_def)
  moreover have "0 \<le> fl (of_int n)" using assms(1) by (intro fl_nonneg) simp
  ultimately show ?thesis by (simp add: float_of_int_def)
qed

lemma float_of_int_mono:
  assumes "0 \<le> w" "w \<le> n" "float_of_int n = Inr t"
  shows "float_of_int w = Inr (fl (of_int w))"
proof -
  have "fl (of_int w) \<le> fl (of_int n)" using assms(1,2) by (intro fl_mono_nonneg) simp_all
  moreover have "\<bar>fl (of_int n)\<bar> < 2 ^ 1024" using assms(3)
    by (simp add: float_of_int_def Let_def split: if_splits)
  moreover have "0 \<le> fl (of_int w)" using assms(1) by (intro fl_nonneg) simp
  ultimately show ?thesis by (simp add: float_of_int_def)
qed


subsection \<open>The weighted walk\<close>

lemma float_of_int_small: "\<bar>n\<bar> \<le> 2 ^ 53 \<Longrightarrow> float_of_int n = Inr (of_int n)"
proof -
  assume n: "\<bar>n\<bar> \<le> 2 ^ 53"
  have "\<bar>n\<bar> < 2 ^ 1024" using n by (rule order_le_less_trans) simp
  then have "\<bar>of_int n :: rat\<bar> < 2 ^ 1024"
    by (metis of_int_abs of_int_less_iff of_int_numeral of_int_power)
  then show ?thesis using fl_of_int[OF n] by (simp add: float_of_int_def)
qed

lemma walk_zero: "\<forall>w\<in>set ws. w = 0 \<Longrightarrow> walk 0 i ws = Inr None"
  by (induction ws arbitrary: i) (simp_all add: bindE_def float_of_int_def fl_0)

lemma walk_range: "walk r i ws = Inr (Some k) \<Longrightarrow> i \<le> k \<and> k < i + length ws"
proof (induction ws arbitrary: r i)
  case Nil then show ?case by simp
next
  case (Cons w ws)
  show ?case
  proof (cases "r < of_int w")
    case True with Cons.prems show ?thesis by simp
  next
    case False
    with Cons.prems obtain w' where "walk (fl (r - w')) (Suc i) ws = Inr (Some k)"
      by (auto simp: bindE_def split: sum.splits)
    from Cons.IH[OF this] show ?thesis by simp
  qed
qed

lemma walk_spec:
  assumes "fl r = r" "0 \<le> r" "r < 2 ^ 53" "\<forall>w\<in>set ws. 0 \<le> w"
  shows "\<exists>res. walk r i ws = Inr res \<and>
    (case res of None \<Rightarrow> of_int (sum_list ws) \<le> r
     | Some k \<Rightarrow> i \<le> k \<and> k - i < length ws \<and>
         of_int (sum_list (take (k - i) ws)) \<le> r \<and>
         r < of_int (sum_list (take (k - i) ws)) + of_int (ws ! (k - i)))"
  using assms
proof (induction ws arbitrary: r i)
  case Nil then show ?case by simp
next
  case (Cons w ws)
  show ?case
  proof (cases "r < of_int w")
    case True with Cons.prems show ?thesis by simp
  next
    case False
    have w0: "0 \<le> w" using Cons.prems(4) by simp
    have wr: "of_int w \<le> r" using False by simp
    then have "(of_int w :: rat) < of_int (2 ^ 53)" using Cons.prems(3) by simp
    then have "w < 2 ^ 53" by (simp only: of_int_less_iff)
    then have fw: "float_of_int w = Inr (of_int w)" using w0 by (intro float_of_int_small) simp
    define r' where "r' = r - of_int w"
    have ex: "fl r' = r'" unfolding r'_def using Cons.prems(1) w0 wr Cons.prems(3) by (rule fsub_exact)
    have r'0: "0 \<le> r'" using wr by (simp add: r'_def)
    have "(0::rat) \<le> of_int w" using w0 by simp
    then have r'b: "r' < 2 ^ 53" using Cons.prems(3) by (simp add: r'_def)
    have ws0: "\<forall>w\<in>set ws. 0 \<le> w" using Cons.prems(4) by simp
    from Cons.IH[OF ex r'0 r'b ws0, of "Suc i"] obtain res where
      res: "walk r' (Suc i) ws = Inr res" and
      sp: "case res of None \<Rightarrow> of_int (sum_list ws) \<le> r'
     | Some k \<Rightarrow> Suc i \<le> k \<and> k - Suc i < length ws \<and>
         of_int (sum_list (take (k - Suc i) ws)) \<le> r' \<and>
         r' < of_int (sum_list (take (k - Suc i) ws)) + of_int (ws ! (k - Suc i))" by blast
    have wk: "walk r i (w # ws) = Inr res" using False fw res ex by (simp add: bindE_def r'_def)
    show ?thesis
    proof (cases res)
      case None
      with sp wk show ?thesis by (simp add: r'_def)
    next
      case (Some k)
      with sp have k: "Suc i \<le> k" by simp
      then have "k - i = Suc (k - Suc i)" by simp
      with sp wk Some show ?thesis by (simp add: r'_def)
    qed
  qed
qed

lemma tape_ok: "rng_ok tape"
  by (auto simp: rng_ok_def tape_def tape_random_def tape_randint_def split: list.splits)

lemma sum_take_mono:
  "\<forall>w\<in>set ws. (0::int) \<le> w \<Longrightarrow> j \<le> k \<Longrightarrow> sum_list (take j ws) \<le> sum_list (take k ws)"
proof (induction ws arbitrary: j k)
  case Nil then show ?case by simp
next
  case (Cons w ws)
  show ?case
  proof (cases j)
    case 0
    have "0 \<le> sum_list (take k (w # ws))"
      by (rule sum_list_nonneg) (meson Cons.prems(1) in_set_takeD)
    then show ?thesis using 0 by simp
  next
    case (Suc j')
    then obtain k' where k: "k = Suc k'" using Cons.prems(2) by (cases k) auto
    have "sum_list (take j' ws) \<le> sum_list (take k' ws)"
      using Cons.prems Suc k by (intro Cons.IH) auto
    then show ?thesis using Suc k by simp
  qed
qed

lemma sum_take_Suc:
  "k < length ws \<Longrightarrow> sum_list (take (Suc k) ws) = sum_list (take k ws) + (ws ! k :: int)"
  by (simp add: take_Suc_conv_app_nth)

lemma sum_take_le_total:
  "\<forall>w\<in>set ws. (0::int) \<le> w \<Longrightarrow> sum_list (take k ws) \<le> sum_list ws"
  using sum_take_mono[of ws k "length ws"] by (cases "k \<le> length ws") auto

lemma walk_spec0:
  assumes "fl r = r" "0 \<le> r" "r < 2 ^ 53" "\<forall>w\<in>set ws. 0 \<le> w"
  shows "\<exists>res. walk r 0 ws = Inr res \<and>
    (case res of None \<Rightarrow> of_int (sum_list ws) \<le> r
     | Some k \<Rightarrow> k < length ws \<and>
         of_int (sum_list (take k ws)) \<le> r \<and>
         r < of_int (sum_list (take k ws)) + of_int (ws ! k))"
proof -
  from walk_spec[OF assms, of 0] obtain res where
    a: "walk r 0 ws = Inr res" and
    b: "case res of None \<Rightarrow> of_int (sum_list ws) \<le> r
     | Some k \<Rightarrow> 0 \<le> k \<and> k - 0 < length ws \<and>
         of_int (sum_list (take (k - 0) ws)) \<le> r \<and>
         r < of_int (sum_list (take (k - 0) ws)) + of_int (ws ! (k - 0))" by blast
  from b have "case res of None \<Rightarrow> of_int (sum_list ws) \<le> r
     | Some k \<Rightarrow> k < length ws \<and>
         of_int (sum_list (take k ws)) \<le> r \<and>
         r < of_int (sum_list (take k ws)) + of_int (ws ! k)"
    by (cases res) simp_all
  with a show ?thesis by blast
qed

lemma weighted_random_general:
  fixes ops :: "'g rng" and weights :: "int list" and g :: 'g
  assumes ok: "rng_ok ops" and ne: "weights \<noteq> []" and nonneg: "\<forall>w\<in>set weights. 0 \<le> w"
    and small: "sum_list weights < 2 ^ 53"
  defines "r \<equiv> fl (fst (rng_random ops g) * of_int (sum_list weights))"
  shows "\<exists>i<length weights.
           weighted_random ops weights g = Inr (int i, snd (rng_random ops g)) \<and>
           0 \<le> r \<and> r \<le> of_int (sum_list weights) \<and>
           (r < of_int (sum_list weights) \<longrightarrow>
              of_int (sum_list (take i weights)) \<le> r \<and>
              r < of_int (sum_list (take (Suc i) weights))) \<and>
           (r = of_int (sum_list weights) \<longrightarrow> i = length weights - 1)"
proof -
  define total where "total = sum_list weights"
  define u where "u = fst (rng_random ops g)"
  have u: "0 \<le> u" "u < 1" using ok by (auto simp: rng_ok_def u_def)
  have t0: "0 \<le> total" unfolding total_def using nonneg by (simp add: sum_list_nonneg)
  have tr: "(0::rat) \<le> of_int total" using t0 by simp
  have tb: "(of_int total :: rat) < 2 ^ 53"
    using small unfolding total_def[symmetric]
    by (metis of_int_less_iff of_int_numeral of_int_power)
  have ft: "float_of_int total = Inr (of_int total)"
    using t0 small unfolding total_def[symmetric] by (intro float_of_int_small) simp
  have ut0: "0 \<le> u * of_int total" using u tr by simp
  have utle: "u * of_int total \<le> of_int total" using u tr by (simp add: mult_left_le_one_le)
  have utb: "\<bar>u * of_int total\<bar> < 2 ^ 53" using ut0 utle tb by simp
  have r_def': "r = fl (u * of_int total)" by (simp add: r_def u_def total_def)
  have r0: "0 \<le> r" using fl_ge_int[OF utb, of 0] ut0 by (simp add: r_def')
  have rle: "r \<le> of_int total" unfolding r_def' using utb utle by (rule fl_le_int)
  have rb: "r < 2 ^ 53" using rle tb by simp
  have rfl: "fl r = r" unfolding r_def' by (rule fl_idem)
  from walk_spec0[OF rfl r0 rb nonneg] obtain res where
    res: "walk r 0 weights = Inr res" and
    sp: "case res of None \<Rightarrow> of_int (sum_list weights) \<le> r
         | Some k \<Rightarrow> k < length weights \<and>
             of_int (sum_list (take k weights)) \<le> r \<and>
             r < of_int (sum_list (take k weights)) + of_int (weights ! k)" by blast
  have wr: "weighted_random ops weights g =
        (case res of Some i \<Rightarrow> Inr (int i, snd (rng_random ops g))
                   | None \<Rightarrow> Inr (int (length weights) - 1, snd (rng_random ops g)))"
    using ft res
    by (simp add: weighted_random_def Let_def split_beta bindE_def total_def[symmetric]
         u_def[symmetric] r_def'[symmetric])
  have r0': "0 \<le> r" by (rule r0)
  have rle': "r \<le> of_int (sum_list weights)" using rle by (simp only: total_def)
  show ?thesis
  proof (cases res)
    case None
    have il: "int (length weights) - 1 = int (length weights - 1)" using ne by (cases weights) auto
    have wrN: "weighted_random ops weights g = Inr (int (length weights - 1), snd (rng_random ops g))"
      using wr None by (simp only: il[symmetric] option.case)
    have len: "length weights - 1 < length weights" using ne by simp
    have "of_int (sum_list weights) \<le> r" using sp None by simp
    then have req: "r = of_int (sum_list weights)" using rle' by simp
    then have nlt: "\<not> r < of_int (sum_list weights)" by simp
    show ?thesis
      apply (rule exI[of _ "length weights - 1"])
      using len wrN r0' rle' nlt by blast
  next
    case (Some k)
    with sp have k: "k < length weights" "of_int (sum_list (take k weights)) \<le> r"
      "r < of_int (sum_list (take k weights)) + of_int (weights ! k)" by simp_all
    have sk: "(of_int (sum_list (take (Suc k) weights)) :: rat) =
        of_int (sum_list (take k weights)) + of_int (weights ! k)"
      using sum_take_Suc[OF k(1)] by simp
    have k3: "r < of_int (sum_list (take (Suc k) weights))" using k(3) by (simp only: sk)
    have "sum_list (take (Suc k) weights) \<le> sum_list weights"
      using nonneg by (rule sum_take_le_total)
    then have "(of_int (sum_list (take (Suc k) weights)) :: rat) \<le> of_int (sum_list weights)"
      by (simp only: of_int_le_iff)
    then have "r < of_int (sum_list weights)" using k3 by simp
    then have neq: "r \<noteq> of_int (sum_list weights)" by simp
    have wrS: "weighted_random ops weights g = Inr (int k, snd (rng_random ops g))"
      using wr Some by simp
    show ?thesis
      apply (rule exI[of _ k])
      using k(1,2) k3 wrS r0' rle' neq by blast
  qed
qed

lemma prefix_unique:
  assumes nonneg: "\<forall>w\<in>set ws. (0::int) \<le> w"
    and i: "of_int (sum_list (take i ws)) \<le> (r::rat)" "r < of_int (sum_list (take (Suc i) ws))"
    and j: "of_int (sum_list (take j ws)) \<le> r" "r < of_int (sum_list (take (Suc j) ws))"
  shows "i = (j::nat)"
proof (rule ccontr)
  assume "i \<noteq> j"
  then consider "Suc i \<le> j" | "Suc j \<le> i" by linarith
  then show False
  proof cases
    case 1
    have "sum_list (take (Suc i) ws) \<le> sum_list (take j ws)" using nonneg 1 by (rule sum_take_mono)
    then have "(of_int (sum_list (take (Suc i) ws)) :: rat) \<le> of_int (sum_list (take j ws))" by simp
    then show False using i(2) j(1) by linarith
  next
    case 2
    have "sum_list (take (Suc j) ws) \<le> sum_list (take i ws)" using nonneg 2 by (rule sum_take_mono)
    then have "(of_int (sum_list (take (Suc j) ws)) :: rat) \<le> of_int (sum_list (take i ws))" by simp
    then show False using j(2) i(1) by linarith
  qed
qed

text \<open>The walk raises nothing when every weight converts to a float.\<close>

lemma walk_total:
  "\<forall>w\<in>set ws. \<exists>x. float_of_int w = Inr x \<Longrightarrow> \<exists>res. walk r i ws = Inr res"
proof (induction ws arbitrary: r i)
  case Nil then show ?case by simp
next
  case (Cons w ws)
  from Cons.prems obtain x where x: "float_of_int w = Inr x" by auto
  have "\<forall>w\<in>set ws. \<exists>x. float_of_int w = Inr x" using Cons.prems by simp
  from Cons.IH[OF this, of "fl (r - x)" "Suc i"] show ?case
    by (auto simp: x bindE_def)
qed

lemma member_le_sum_list:
  "\<forall>w\<in>set ws. (0::int) \<le> w \<Longrightarrow> v \<in> set ws \<Longrightarrow> v \<le> sum_list ws"
  by (induction ws) (auto simp: sum_list_nonneg add_increasing add_increasing2)

lemma weighted_random_in_range:
  fixes ops :: "'g rng" and weights :: "int list" and g :: 'g
  assumes ne: "weights \<noteq> []" and nonneg: "\<forall>w\<in>set weights. 0 \<le> w"
    and conv: "float_of_int (sum_list weights) = Inr t"
  shows "\<exists>i<length weights. weighted_random ops weights g = Inr (int i, snd (rng_random ops g))"
proof -
  have "\<forall>w\<in>set weights. \<exists>x. float_of_int w = Inr x"
  proof
    fix w assume w: "w \<in> set weights"
    have "0 \<le> w" using nonneg w by simp
    moreover have "w \<le> sum_list weights" using nonneg w by (rule member_le_sum_list)
    ultimately show "\<exists>x. float_of_int w = Inr x" using conv float_of_int_mono by blast
  qed
  then obtain res where res: "walk (fl (fst (rng_random ops g) * t)) 0 weights = Inr res"
    using walk_total by blast
  have wr: "weighted_random ops weights g =
        (case res of Some i \<Rightarrow> Inr (int i, snd (rng_random ops g))
                   | None \<Rightarrow> Inr (int (length weights) - 1, snd (rng_random ops g)))"
    using conv res by (simp add: weighted_random_def Let_def split_beta bindE_def)
  show ?thesis
  proof (cases res)
    case None
    have il: "int (length weights) - 1 = int (length weights - 1)" using ne by (cases weights) auto
    have wrN: "weighted_random ops weights g = Inr (int (length weights - 1), snd (rng_random ops g))"
      using wr None by (simp only: il[symmetric] option.case)
    have len: "length weights - 1 < length weights" using ne by simp
    show ?thesis using len wrN by blast
  next
    case (Some k)
    from walk_range[OF res[unfolded Some]] have "k < length weights" by simp
    moreover have "weighted_random ops weights g = Inr (int k, snd (rng_random ops g))"
      using wr Some by simp
    ultimately show ?thesis by blast
  qed
qed

lemma float_of_int_overflow: "float_of_int (2 ^ 1024) = Inl OverflowError"
proof -
  have "(of_int (2 ^ 1024) :: rat) = 2 powi 1024" by (simp add: power_int_def)
  then have "fl (of_int (2 ^ 1024)) = 2 powi 1024" using fl_pow[of 1024] by simp
  then have "fl (of_int (2 ^ 1024)) = 2 ^ 1024" by (simp add: power_int_def)
  then show ?thesis unfolding float_of_int_def Let_def by (simp only:) simp
qed

lemma weighted_random_overflow_example:
  "weighted_random tape [2 ^ 1024] ([1 / 2], []) = Inl OverflowError"
  using float_of_int_overflow
  by (simp add: weighted_random_def tape_def tape_random_def bindE_def)

subsection \<open>Claims about \<^verbatim>\<open>weighted_random\<close>\<close>

text \<open>Evaluation of the conversions and roundings on numerals.\<close>

lemma fl_numeral: "numeral k \<le> (2 ^ 53 :: int) \<Longrightarrow> fl (numeral k) = numeral k"
  using fl_of_int[of "numeral k"] by simp

lemma fl_1: "fl 1 = 1"
  using fl_of_int[of 1] by simp

lemma float_of_int_eval:
  "fl (of_int n) = x \<Longrightarrow> \<bar>x\<bar> < 2 ^ 1024 \<Longrightarrow> float_of_int n = Inr x"
  by (simp add: float_of_int_def)

lemma float_of_int_numeral:
  "numeral k \<le> (2 ^ 53 :: int) \<Longrightarrow> float_of_int (numeral k) = Inr (numeral k)"
  using float_of_int_small[of "numeral k"] by simp

lemma float_of_int_0: "float_of_int 0 = Inr 0"
  using float_of_int_small[of 0] by simp

lemma weighted_random_example:
  "weighted_random tape [70, 25, 5] ([8 / 10], []) = Inr (1, ([], []))"
  by (simp add: weighted_random_def tape_def tape_random_def bindE_def
      float_of_int_numeral fl_numeral)

text \<open>The roundings met with the weights \<open>[2 ^ 53 + 1, 6, 5]\<close> and the draw \<open>1 - 6 / 2 ^ 53\<close>.\<close>

lemma large_total: "fl 9007199254741004 = 9007199254741004"
  by code_simp

lemma large_draw: "fl ((1 - 6 / 2 ^ 53) * 9007199254741004) = 9007199254740998"
  by code_simp

lemma large_weight: "fl 9007199254740993 = 9007199254740992"
  by code_simp

lemma weighted_random_large_example:
  "weighted_random tape [2 ^ 53 + 1, 6, 5] ([1 - 6 / 2 ^ 53], []) = Inr (2, ([], []))"
proof -
  have a: "float_of_int 9007199254741004 = Inr 9007199254741004"
    by (rule float_of_int_eval) (simp_all add: large_total)
  have b: "float_of_int 9007199254740993 = Inr 9007199254740992"
    by (rule float_of_int_eval) (simp_all add: large_weight)
  note c = large_draw[simplified]
  show ?thesis
    by (simp add: weighted_random_def tape_def tape_random_def bindE_def a b c
      float_of_int_numeral fl_numeral fl_0)
qed

text \<open>
  Claim C5, as the code has it. For non-empty, non-negative integer weights whose total
  converts to a float (every total below \<open>2 ^ 1023\<close> does), \<^verbatim>\<open>weighted_random\<close> raises
  nothing and returns an index \<open>i\<close> inside the sequence. If moreover the total is below
  \<open>2 ^ 53\<close> and the draw lies in \<open>[0, 1)\<close>, let \<open>r\<close> be the scaled draw
  \<^verbatim>\<open>random.random() * total\<close>: if \<open>r\<close> is below the total, \<open>i\<close> is the one index whose
  prefix sum is at most \<open>r\<close> while \<open>r\<close> is below the prefix sum plus \<open>weights[i]\<close>; if
  the product rounds up to the total, the loop is exhausted and the fallback returns the
  last index. With the weights \<open>[0, 0, 5]\<close> the result is always 2. The bound \<open>2 ^ 53\<close>
  is needed for the interval only: above it the subtractions round.
\<close>

theorem weighted_random_selects:
  fixes ops :: "'g rng" and weights :: "int list" and g :: 'g
  assumes ne: "weights \<noteq> []" and nonneg: "\<forall>w\<in>set weights. 0 \<le> w"
    and conv: "float_of_int (sum_list weights) = Inr t"
  shows "\<exists>i<length weights.
           weighted_random ops weights g = Inr (int i, snd (rng_random ops g)) \<and>
           (rng_ok ops \<and> sum_list weights < 2 ^ 53 \<longrightarrow>
              (fl (fst (rng_random ops g) * of_int (sum_list weights)) < of_int (sum_list weights) \<longrightarrow>
                 of_int (sum_list (take i weights))
                   \<le> fl (fst (rng_random ops g) * of_int (sum_list weights)) \<and>
                 fl (fst (rng_random ops g) * of_int (sum_list weights))
                   < of_int (sum_list (take i weights)) + of_int (weights ! i) \<and>
                 (\<forall>j<length weights.
                    of_int (sum_list (take j weights))
                      \<le> fl (fst (rng_random ops g) * of_int (sum_list weights)) \<and>
                    fl (fst (rng_random ops g) * of_int (sum_list weights))
                      < of_int (sum_list (take j weights)) + of_int (weights ! j) \<longrightarrow> j = i)) \<and>
              (of_int (sum_list weights) \<le> fl (fst (rng_random ops g) * of_int (sum_list weights)) \<longrightarrow>
                 i = length weights - 1)) \<and>
           (rng_ok ops \<and> weights = [0, 0, 5] \<longrightarrow> i = 2)"
proof -
  define r where "r = fl (fst (rng_random ops g) * of_int (sum_list weights))"
  from weighted_random_in_range[OF ne nonneg conv, of ops g] obtain i where
    i: "i < length weights"
    and wr: "weighted_random ops weights g = Inr (int i, snd (rng_random ops g))" by blast
  have gen: "0 \<le> r \<and> r \<le> of_int (sum_list weights) \<and>
      (r < of_int (sum_list weights) \<longrightarrow>
         of_int (sum_list (take i weights)) \<le> r \<and>
         r < of_int (sum_list (take (Suc i) weights))) \<and>
      (r = of_int (sum_list weights) \<longrightarrow> i = length weights - 1)"
    if ok: "rng_ok ops" and small: "sum_list weights < 2 ^ 53"
  proof -
    from weighted_random_general[OF ok ne nonneg small, of g] obtain i' where
      wr': "weighted_random ops weights g = Inr (int i', snd (rng_random ops g))"
      and rest: "0 \<le> r \<and> r \<le> of_int (sum_list weights) \<and>
        (r < of_int (sum_list weights) \<longrightarrow>
           of_int (sum_list (take i' weights)) \<le> r \<and>
           r < of_int (sum_list (take (Suc i') weights))) \<and>
        (r = of_int (sum_list weights) \<longrightarrow> i' = length weights - 1)"
      unfolding r_def by blast
    from wr wr' have "i' = i" by simp
    with rest show ?thesis by simp
  qed
  have suc: "\<And>j. j < length weights \<Longrightarrow>
      (of_int (sum_list (take j weights)) + of_int (weights ! j) :: rat)
        = of_int (sum_list (take (Suc j) weights))"
    by (simp add: sum_take_Suc)
  have a: "r < of_int (sum_list weights) \<longrightarrow>
              of_int (sum_list (take i weights)) \<le> r \<and>
              r < of_int (sum_list (take i weights)) + of_int (weights ! i) \<and>
              (\<forall>j<length weights.
                 of_int (sum_list (take j weights)) \<le> r \<and>
                 r < of_int (sum_list (take j weights)) + of_int (weights ! j) \<longrightarrow> j = i)"
    if ok: "rng_ok ops" and small: "sum_list weights < 2 ^ 53"
  proof (intro impI conjI allI)
    assume rl: "r < of_int (sum_list weights)"
    with gen[OF ok small] have p: "of_int (sum_list (take i weights)) \<le> r"
      "r < of_int (sum_list (take (Suc i) weights))" by simp_all
    show "of_int (sum_list (take i weights)) \<le> r" by (rule p)
    show "r < of_int (sum_list (take i weights)) + of_int (weights ! i)"
      using p(2) suc[OF i] by simp
    fix j
    assume j: "j < length weights"
      and q: "of_int (sum_list (take j weights)) \<le> r \<and>
        r < of_int (sum_list (take j weights)) + of_int (weights ! j)"
    from q suc[OF j] have q2: "r < of_int (sum_list (take (Suc j) weights))" by simp
    from q have q1: "of_int (sum_list (take j weights)) \<le> r" by simp
    show "j = i" using nonneg q1 q2 p by (rule prefix_unique)
  qed
  have b: "of_int (sum_list weights) \<le> r \<longrightarrow> i = length weights - 1"
    if ok: "rng_ok ops" and small: "sum_list weights < 2 ^ 53"
    using gen[OF ok small] by auto
  have c: "rng_ok ops \<and> weights = [0, 0, 5] \<longrightarrow> i = 2"
  proof
    assume h: "rng_ok ops \<and> weights = [0, 0, 5]"
    then have ok: "rng_ok ops" and w: "weights = [0, 0, 5]" by simp_all
    have small: "sum_list weights < 2 ^ 53" by (simp add: w)
    note G = gen[OF ok small]
    show "i = 2"
    proof (cases "r < of_int (sum_list weights)")
      case True
      with G have p: "of_int (sum_list (take i weights)) \<le> r"
        "r < of_int (sum_list (take (Suc i) weights))" by simp_all
      have r0: "0 \<le> r" using G by simp
      have "i = 0 \<or> i = 1 \<or> i = 2" using i w by auto
      then show ?thesis using p(2) r0 w by auto
    next
      case False
      with G have "r = of_int (sum_list weights)" by simp
      with G show ?thesis using w by simp
    qed
  qed
  show ?thesis
    apply (rule exI[of _ i])
    using i wr a b c unfolding r_def by blast
qed

theorem weighted_random_selects_witness:
  "[70, 25, 5] \<noteq> ([] :: int list) \<and> list_all (\<lambda>w. 0 \<le> w) [70, 25, 5 :: int] \<and>
   float_of_int (sum_list [70, 25, 5]) = Inr 100 \<and>
   rng_ok tape \<and> sum_list [70, 25, 5 :: int] < 2 ^ 53 \<and>
   weighted_random tape [70, 25, 5] ([8 / 10], []) = Inr (1, ([], []))"
  using weighted_random_selects[of "[70, 25, 5]" 100 tape "([8 / 10], [])"]
    tape_ok weighted_random_example
  by (simp add: float_of_int_numeral)

text \<open>
  Claim C5 as stated fails for large weights. With the weights \<open>[2 ^ 53 + 1, 6, 5]\<close> and
  the draw \<open>1 - 6 / 2 ^ 53\<close> the scaled draw is \<open>2 ^ 53 + 6\<close>, below the total and inside
  the interval of index 1; the subtraction of the first weight rounds, and the code
  returns index 2.
\<close>

theorem weighted_random_large_weights_counterexample:
  "weighted_random tape [2 ^ 53 + 1, 6, 5] ([1 - 6 / 2 ^ 53], []) = Inr (2, ([], [])) \<and>
   fl (fst (rng_random tape ([1 - 6 / 2 ^ 53], [])) * of_int (sum_list [2 ^ 53 + 1, 6, 5]))
     = 2 ^ 53 + 6 \<and>
   (2 ^ 53 + 6 :: rat) < of_int (sum_list [2 ^ 53 + 1, 6, 5]) \<and>
   (of_int (sum_list (take 1 [2 ^ 53 + 1, 6, 5])) :: rat) \<le> 2 ^ 53 + 6 \<and>
   (2 ^ 53 + 6 :: rat)
     < of_int (sum_list (take 1 [2 ^ 53 + 1, 6, 5])) + of_int ([2 ^ 53 + 1, 6, 5] ! 1)"
proof (intro conjI)
  show "weighted_random tape [2 ^ 53 + 1, 6, 5] ([1 - 6 / 2 ^ 53], []) = Inr (2, ([], []))"
    by (rule weighted_random_large_example)
  show "fl (fst (rng_random tape ([1 - 6 / 2 ^ 53], [])) * of_int (sum_list [2 ^ 53 + 1, 6, 5]))
     = 2 ^ 53 + 6"
    by (simp add: tape_def tape_random_def large_draw[simplified])
qed simp_all

text \<open>
  Claim C10: for a non-empty sequence of weights that are all zero, \<^verbatim>\<open>weighted_random\<close>
  raises nothing and returns the last index, \<open>len(weights) - 1\<close>, whatever the draw.
\<close>

theorem weighted_random_zero_weights:
  assumes "weights \<noteq> []" "\<forall>w\<in>set weights. w = 0"
  shows "weighted_random ops weights g = Inr (int (length weights) - 1, snd (rng_random ops g))"
proof -
  have "sum_list weights = 0" using assms(2) by (induction weights) auto
  moreover have "float_of_int 0 = Inr 0" by (simp add: float_of_int_def fl_0)
  ultimately show ?thesis using walk_zero[OF assms(2), of 0]
    by (simp add: weighted_random_def Let_def split_beta bindE_def fl_0)
qed

theorem weighted_random_zero_weights_witness:
  "[0, 0, 0] \<noteq> ([] :: int list) \<and> list_all (\<lambda>w. w = 0) [0, 0, 0 :: int] \<and>
   weighted_random tape [0, 0, 0] ([1 / 2], []) = Inr (2, ([], []))"
  using weighted_random_zero_weights[of "[0, 0, 0]" tape "([1 / 2], [])"]
  by (simp add: tape_def tape_random_def)

subsection \<open>Durations and \<^verbatim>\<open>random_date\<close>\<close>

lemma rhe_0: "rhe 0 = 0"
  by (simp add: rhe_def)

lemma US_pos: "0 < US_PER_DAY" by (simp add: US_PER_DAY_def)

lemma td_days_bounds: "td_days delta * US_PER_DAY \<le> delta \<and> delta < (td_days delta + 1) * US_PER_DAY"
proof -
  have e: "delta div US_PER_DAY * US_PER_DAY + delta mod US_PER_DAY = delta"
    by (rule div_mult_mod_eq)
  have m: "0 \<le> delta mod US_PER_DAY" "delta mod US_PER_DAY < US_PER_DAY"
    using US_pos by simp_all
  have "(delta div US_PER_DAY + 1) * US_PER_DAY = delta div US_PER_DAY * US_PER_DAY + US_PER_DAY"
    by (simp add: algebra_simps)
  then show ?thesis unfolding td_days_def using e m by linarith
qed

lemma td_days_mono: "a \<le> b \<Longrightarrow> td_days a \<le> td_days b"
  unfolding td_days_def using US_pos by (simp add: zdiv_mono1)

lemma td_days_mult: "td_days (n * US_PER_DAY) = n"
  unfolding td_days_def using US_pos by simp

lemma check_timedelta_between:
  assumes "lo * US_PER_DAY \<le> td" "td \<le> hi * US_PER_DAY" "- 999999999 \<le> lo" "hi \<le> 999999999"
  shows "check_timedelta td = Inr td"
proof -
  have "lo \<le> td_days td" using td_days_mono[OF assms(1)] by (simp add: td_days_mult)
  moreover have "td_days td \<le> hi" using td_days_mono[OF assms(2)] by (simp add: td_days_mult)
  ultimately show ?thesis using assms(3,4) by (simp add: check_timedelta_def)
qed

lemma fl_between_int:
  assumes "of_int a \<le> x" "x \<le> of_int b" "\<bar>a\<bar> < 2 ^ 53" "\<bar>b\<bar> < 2 ^ 53"
  shows "of_int a \<le> fl x \<and> fl x \<le> of_int b"
proof -
  have "(of_int \<bar>a\<bar> :: rat) < of_int (2 ^ 53)" "(of_int \<bar>b\<bar> :: rat) < of_int (2 ^ 53)"
    using assms(3,4) by (simp_all only: of_int_less_iff)
  then have "\<bar>x\<bar> < 2 ^ 53" using assms(1,2) by simp
  then show ?thesis using assms(1,2) fl_le_int fl_ge_int by blast
qed

lemma timedelta_float_days_nonneg:
  assumes x0: "0 \<le> x" and xd: "x \<le> of_int d" and d: "d \<le> 999999999"
  shows "\<exists>td. timedelta_float_days x = Inr td \<and> 0 \<le> td \<and> td \<le> d * US_PER_DAY"
proof -
  define ip where "ip = \<lfloor>x\<rfloor>"
  define fp where "fp = x - of_int ip"
  define y where "y = fl (of_int US_PER_DAY * fp)"
  have fp: "0 \<le> fp" "fp < 1" unfolding fp_def ip_def by linarith+
  have ip0: "0 \<le> ip" unfolding ip_def using x0 by simp
  have usr: "(0::rat) < of_int US_PER_DAY" using US_pos by simp
  have "of_int 0 \<le> of_int US_PER_DAY * fp" using fp usr by simp
  moreover have "of_int US_PER_DAY * fp \<le> of_int US_PER_DAY" using fp usr by simp
  ultimately have yb: "of_int 0 \<le> y \<and> y \<le> of_int US_PER_DAY"
    unfolding y_def by (rule fl_between_int) (simp_all add: US_PER_DAY_def)
  have d0: "0 \<le> d" using x0 xd by (metis of_int_0_le_iff order_trans)
  have up: "of_int (ip * US_PER_DAY) + y \<le> of_int (d * US_PER_DAY)"
  proof (cases "fp = 0")
    case True
    then have "y = 0" by (simp add: y_def fl_0)
    moreover have "ip \<le> d" using xd unfolding ip_def by (simp add: floor_le_iff)
    then have "ip * US_PER_DAY \<le> d * US_PER_DAY" using US_pos by simp
    then have "(of_int (ip * US_PER_DAY) :: rat) \<le> of_int (d * US_PER_DAY)"
      by (simp only: of_int_le_iff)
    ultimately show ?thesis by simp
  next
    case False
    then have "of_int ip < x" using fp by (simp add: fp_def)
    then have "(of_int ip :: rat) < of_int d" using xd by linarith
    then have "ip + 1 \<le> d" by simp
    then have "(ip + 1) * US_PER_DAY \<le> d * US_PER_DAY" using US_pos by simp
    then have "(of_int ((ip + 1) * US_PER_DAY) :: rat) \<le> of_int (d * US_PER_DAY)"
      by (simp only: of_int_le_iff)
    then show ?thesis using yb by (simp add: algebra_simps)
  qed
  have "0 \<le> ip * US_PER_DAY" using ip0 US_pos by simp
  then have "(of_int 0 :: rat) \<le> of_int (ip * US_PER_DAY)" by (simp only: of_int_le_iff)
  then have lo: "of_int 0 \<le> of_int (ip * US_PER_DAY) + y" using yb by simp
  define td where "td = rhe (of_int (ip * US_PER_DAY) + y)"
  have td0: "0 \<le> td" using rhe_mono[OF lo] by (simp only: td_def rhe_of_int)
  have tdd: "td \<le> d * US_PER_DAY" using rhe_mono[OF up] by (simp only: td_def rhe_of_int)
  have "check_timedelta td = Inr td"
    using check_timedelta_between[of 0 td d] td0 tdd d by simp
  moreover have "timedelta_float_days x = check_timedelta td"
    using x0 by (simp add: timedelta_float_days_def Let_def td_def y_def fp_def ip_def)
  ultimately show ?thesis using td0 tdd by simp
qed

lemma timedelta_float_days_nonpos:
  assumes x0: "x \<le> 0" and xd: "of_int d \<le> x" and d: "- 999999999 \<le> d"
  shows "\<exists>td. timedelta_float_days x = Inr td \<and> d * US_PER_DAY \<le> td \<and> td \<le> 0"
proof (cases "x = 0")
  case True
  have "d \<le> 0" using xd True by simp
  then have "d * US_PER_DAY \<le> 0" using US_pos by (simp add: mult_le_0_iff)
  moreover have "timedelta_float_days 0 = Inr 0"
    by (simp add: timedelta_float_days_def fl_0 rhe_def check_timedelta_def td_days_def)
  ultimately show ?thesis using True by simp
next
  case False
  then have xneg: "x < 0" using x0 by simp
  define ip where "ip = \<lceil>x\<rceil>"
  define fp where "fp = x - of_int ip"
  define y where "y = fl (of_int US_PER_DAY * fp)"
  have fp: "- 1 < fp" "fp \<le> 0" unfolding fp_def ip_def by linarith+
  have ip0: "ip \<le> 0" unfolding ip_def using x0 by (simp add: ceiling_le_iff)
  have usr: "(0::rat) < of_int US_PER_DAY" using US_pos by simp
  have "of_int US_PER_DAY * fp \<le> of_int 0" using fp usr by (simp add: mult_le_0_iff)
  moreover have "of_int (- US_PER_DAY) \<le> of_int US_PER_DAY * fp"
  proof -
    have "of_int US_PER_DAY * (- 1) \<le> of_int US_PER_DAY * fp"
      using fp usr by (intro mult_left_mono) simp_all
    then show ?thesis by simp
  qed
  ultimately have yb: "of_int (- US_PER_DAY) \<le> y \<and> y \<le> of_int 0"
    unfolding y_def by (intro fl_between_int) (simp_all add: US_PER_DAY_def)
  have lo: "of_int (d * US_PER_DAY) \<le> of_int (ip * US_PER_DAY) + y"
  proof (cases "fp = 0")
    case True
    then have "y = 0" by (simp add: y_def fl_0)
    moreover have "d \<le> ip" using xd unfolding ip_def by (simp add: le_ceiling_iff)
    then have "d * US_PER_DAY \<le> ip * US_PER_DAY" using US_pos by simp
    then have "(of_int (d * US_PER_DAY) :: rat) \<le> of_int (ip * US_PER_DAY)"
      by (simp only: of_int_le_iff)
    ultimately show ?thesis by simp
  next
    case False
    then have "x < of_int ip" using fp by (simp add: fp_def)
    then have "(of_int d :: rat) < of_int ip" using xd by linarith
    then have "d \<le> ip - 1" by simp
    then have "d * US_PER_DAY \<le> (ip - 1) * US_PER_DAY" using US_pos by simp
    then have "(of_int (d * US_PER_DAY) :: rat) \<le> of_int ((ip - 1) * US_PER_DAY)"
      by (simp only: of_int_le_iff)
    then show ?thesis using yb by (simp add: algebra_simps)
  qed
  have "ip * US_PER_DAY \<le> 0" using ip0 US_pos by (simp add: mult_le_0_iff)
  then have "(of_int (ip * US_PER_DAY) :: rat) \<le> of_int 0" by (simp only: of_int_le_iff)
  then have up: "of_int (ip * US_PER_DAY) + y \<le> of_int 0" using yb by simp
  define td where "td = rhe (of_int (ip * US_PER_DAY) + y)"
  have td0: "td \<le> 0" using rhe_mono[OF up] by (simp only: td_def rhe_of_int)
  have tdd: "d * US_PER_DAY \<le> td" using rhe_mono[OF lo] by (simp only: td_def rhe_of_int)
  have "check_timedelta td = Inr td"
    using check_timedelta_between[of d td 0] td0 tdd d by simp
  moreover have "timedelta_float_days x = check_timedelta td"
    using xneg by (simp add: timedelta_float_days_def Let_def td_def y_def fp_def ip_def)
  ultimately show ?thesis using td0 tdd by simp
qed

lemma valid_datetime_td_days:
  assumes "valid_datetime s" "valid_datetime e"
  shows "\<bar>td_days (e - s)\<bar> \<le> MAXORDINAL + 1"
proof -
  have b: "US_PER_DAY \<le> s" "s < (MAXORDINAL + 1) * US_PER_DAY"
    "US_PER_DAY \<le> e" "e < (MAXORDINAL + 1) * US_PER_DAY"
    using assms by (simp_all add: valid_datetime_def datetime_min_def datetime_max_def)
  have "e - s \<le> (MAXORDINAL + 1) * US_PER_DAY" using b US_pos by linarith
  from td_days_mono[OF this] have up: "td_days (e - s) \<le> MAXORDINAL + 1"
    by (simp only: td_days_mult)
  have "(- (MAXORDINAL + 1)) * US_PER_DAY = - ((MAXORDINAL + 1) * US_PER_DAY)"
    by (simp add: algebra_simps)
  then have "(- (MAXORDINAL + 1)) * US_PER_DAY \<le> e - s" using b US_pos by linarith
  from td_days_mono[OF this] have "- (MAXORDINAL + 1) \<le> td_days (e - s)"
    by (simp only: td_days_mult)
  with up show ?thesis by linarith
qed

lemma random_date_general:
  fixes ops :: "'g rng" and g :: 'g
  assumes ok: "rng_ok ops" and vs: "valid_datetime s" and ve: "valid_datetime e"
    and side: "s \<le> e \<or> datetime_min \<le> s + td_days (e - s) * US_PER_DAY"
  shows "\<exists>r. random_date ops s e g = Inr (r, snd (rng_random ops g)) \<and> valid_datetime r \<and>
           (s \<le> e \<longrightarrow> s \<le> r \<and> r \<le> s + td_days (e - s) * US_PER_DAY \<and> r \<le> e) \<and>
           (e < s \<longrightarrow> s + td_days (e - s) * US_PER_DAY \<le> r \<and> r \<le> s)"
proof -
  define days where "days = td_days (e - s)"
  define u where "u = fst (rng_random ops g)"
  define x where "x = fl (u * of_int days)"
  have u: "0 \<le> u" "u < 1" using ok by (auto simp: rng_ok_def u_def)
  have db: "\<bar>days\<bar> \<le> 3652060"
    using valid_datetime_td_days[OF vs ve] by (simp add: days_def MAXORDINAL_def)
  have fd: "float_of_int days = Inr (of_int days)"
    using db by (intro float_of_int_small) simp
  have dd: "days * US_PER_DAY \<le> e - s" "e - s < (days + 1) * US_PER_DAY"
    using td_days_bounds[of "e - s"] by (simp_all add: days_def)
  have rd: "random_date ops s e g =
      bindE (timedelta_float_days x) (\<lambda>random_days.
      bindE (datetime_add s random_days) (\<lambda>r. Inr (r, snd (rng_random ops g))))"
    by (simp add: random_date_def Let_def split_beta fd[unfolded days_def] bindE_def days_def
        x_def u_def)
  have vb: "datetime_min \<le> s" "s \<le> datetime_max" "datetime_min \<le> e" "e \<le> datetime_max"
    using vs ve by (simp_all add: valid_datetime_def)
  show ?thesis
  proof (cases "s \<le> e")
    case True
    have "0 * US_PER_DAY \<le> e - s" using True by simp
    from td_days_mono[OF this] have d0: "0 \<le> days" by (simp only: td_days_mult days_def)
    then have dr: "(0::rat) \<le> of_int days" by simp
    have "of_int 0 \<le> u * of_int days" using u dr by simp
    moreover have "u * of_int days \<le> of_int days" using u dr by (simp add: mult_left_le_one_le)
    ultimately have xb: "of_int 0 \<le> x \<and> x \<le> of_int days"
      unfolding x_def using db by (intro fl_between_int) simp_all
    from timedelta_float_days_nonneg[of x days] xb db obtain td where
      td: "timedelta_float_days x = Inr td" "0 \<le> td" "td \<le> days * US_PER_DAY" by auto
    have v: "valid_datetime (s + td)" using td dd vb by (simp add: valid_datetime_def)
    then have "random_date ops s e g = Inr (s + td, snd (rng_random ops g))"
      by (simp add: rd td bindE_def datetime_add_def)
    then show ?thesis using True v td dd unfolding days_def[symmetric] by auto
  next
    case False
    then have lt: "e < s" by simp
    with side have dm: "datetime_min \<le> s + days * US_PER_DAY" by (simp add: days_def)
    have "e - s \<le> 0 * US_PER_DAY" using lt by simp
    from td_days_mono[OF this] have d0: "days \<le> 0" by (simp only: td_days_mult days_def)
    then have dr: "(of_int days :: rat) \<le> 0" by simp
    have "u * of_int days \<le> of_int 0" using u dr by (simp add: mult_le_0_iff)
    moreover have "of_int days \<le> u * of_int days"
    proof -
      have "1 * (- of_int days :: rat) \<ge> u * (- of_int days)"
        using u dr by (intro mult_right_mono) simp_all
      then show ?thesis by simp
    qed
    ultimately have xb: "of_int days \<le> x \<and> x \<le> of_int 0"
      unfolding x_def using db by (intro fl_between_int) simp_all
    from timedelta_float_days_nonpos[of x days] xb db obtain td where
      td: "timedelta_float_days x = Inr td" "days * US_PER_DAY \<le> td" "td \<le> 0" by auto
    have v: "valid_datetime (s + td)" using td dm vb by (simp add: valid_datetime_def)
    then have "random_date ops s e g = Inr (s + td, snd (rng_random ops g))"
      by (simp add: rd td bindE_def datetime_add_def)
    then show ?thesis using lt v td unfolding days_def[symmetric] by auto
  qed
qed

lemma rhe_numeral: "rhe (numeral k) = numeral k"
  using rhe_of_int[of "numeral k"] by simp

lemma rhe_neg_numeral: "rhe (- numeral k) = - numeral k"
  using rhe_of_int[of "- numeral k"] by simp

lemma fl_neg_numeral: "numeral k \<le> (2 ^ 53 :: int) \<Longrightarrow> fl (- numeral k) = - numeral k"
  using fl_of_int[of "- numeral k"] by simp

lemma float_of_int_neg_numeral:
  "numeral k \<le> (2 ^ 53 :: int) \<Longrightarrow> float_of_int (- numeral k) = Inr (- numeral k)"
  using float_of_int_small[of "- numeral k"] by simp

lemma float_of_int_m1: "float_of_int (- 1) = Inr (- 1)"
  using float_of_int_small[of "- 1"] by simp

lemmas eval_simps = fl_0 fl_1 fl_numeral fl_neg_numeral float_of_int_0 float_of_int_numeral
  float_of_int_neg_numeral float_of_int_m1 rhe_0 rhe_numeral rhe_neg_numeral bindE_def Let_def

lemmas date_simps = datetime_ymd_def ymd2ord_def days_before_year_def days_before_month_def
  is_leap_def US_PER_DAY_def MAXORDINAL_def datetime_min_def datetime_max_def valid_datetime_def
  td_days_def check_timedelta_def timedelta_days_def timedelta_float_days_def datetime_add_def

lemma random_date_example:
  "random_date tape (datetime_ymd 2022 1 1) (datetime_ymd 2024 11 30) ([3 / 4], [])
     = Inr (738954 * US_PER_DAY, ([], []))"
  by (simp add: random_date_def tape_def tape_random_def eval_simps date_simps)

lemma random_date_reversed_example:
  "random_date tape (datetime_ymd 2024 11 30) (datetime_ymd 2022 1 1) ([3 / 4], [])
     = Inr (738422 * US_PER_DAY, ([], []))"
  by (simp add: random_date_def tape_def tape_random_def eval_simps date_simps)

lemma fl_three_quarters: "fl (- (3 / 4)) = - (3 / 4)"
  by code_simp

lemma ceiling_three_quarters: "\<lceil>- (3 / 4) :: rat\<rceil> = 0"
  by (rule ceiling_unique) simp_all

lemma random_date_overflow_example:
  "random_date tape (datetime_min + 43200000000) (datetime_min + 1000000) ([3 / 4], [])
     = Inl OverflowError"
  by (simp add: random_date_def tape_def tape_random_def eval_simps date_simps fl_three_quarters
      ceiling_three_quarters)

text \<open>
  Claim C8, as the code has it. For valid instants, \<^verbatim>\<open>random_date\<close> returns without
  error whenever \<open>end \<ge> start\<close>, and the result lies in \<open>[start, end]\<close>. When
  \<open>end < start\<close> the day span \<open>delta.days\<close> is negative and the result lies between
  \<open>start + delta.days\<close> days and \<open>start\<close>, provided that lower end is still a
  representable instant; otherwise the addition may leave the range of \<^verbatim>\<open>datetime\<close>.
\<close>

theorem random_date_in_range:
  fixes ops :: "'g rng" and g :: 'g
  assumes "rng_ok ops" "valid_datetime start_date" "valid_datetime end_date"
    "start_date \<le> end_date \<or>
     datetime_min \<le> start_date + td_days (end_date - start_date) * US_PER_DAY"
  shows "\<exists>r. random_date ops start_date end_date g = Inr (r, snd (rng_random ops g)) \<and>
           (start_date \<le> end_date \<longrightarrow> start_date \<le> r \<and> r \<le> end_date) \<and>
           (end_date < start_date \<longrightarrow>
              start_date + td_days (end_date - start_date) * US_PER_DAY \<le> r \<and> r \<le> start_date)"
  using random_date_general[OF assms, of g] by blast

theorem random_date_in_range_witness:
  "rng_ok tape \<and> valid_datetime (datetime_ymd 2022 1 1) \<and> valid_datetime (datetime_ymd 2024 11 30) \<and>
   random_date tape (datetime_ymd 2022 1 1) (datetime_ymd 2024 11 30) ([3 / 4], [])
     = Inr (738954 * US_PER_DAY, ([], [])) \<and>
   datetime_ymd 2022 1 1 \<le> 738954 * US_PER_DAY \<and> 738954 * US_PER_DAY \<le> datetime_ymd 2024 11 30 \<and>
   random_date tape (datetime_ymd 2024 11 30) (datetime_ymd 2022 1 1) ([3 / 4], [])
     = Inr (738422 * US_PER_DAY, ([], [])) \<and>
   datetime_ymd 2022 1 1 \<le> 738422 * US_PER_DAY \<and> 738422 * US_PER_DAY \<le> datetime_ymd 2024 11 30"
  using random_date_in_range[OF tape_ok, of "datetime_ymd 2022 1 1" "datetime_ymd 2024 11 30"
      "([3 / 4], [])"]
    random_date_in_range[OF tape_ok, of "datetime_ymd 2024 11 30" "datetime_ymd 2022 1 1"
      "([3 / 4], [])"]
    tape_ok random_date_example random_date_reversed_example
  by (simp add: date_simps)

text \<open>
  Claim C8 as stated fails next to the earliest instant: with \<open>start\<close> at noon of
  0001-01-01, \<open>end\<close> one second after the midnight before and the draw \<open>3 / 4\<close>, the
  day span is \<open>-1\<close>, the offset is three quarters of a day back, and the addition raises
  OverflowError.
\<close>

theorem random_date_overflow_counterexample:
  "valid_datetime (datetime_min + 43200000000) \<and> valid_datetime (datetime_min + 1000000) \<and>
   datetime_min + 1000000 < datetime_min + 43200000000 \<and>
   random_date tape (datetime_min + 43200000000) (datetime_min + 1000000) ([3 / 4], [])
     = Inl OverflowError"
  using random_date_overflow_example by (simp add: date_simps)

subsection \<open>The order loop\<close>

text \<open>
  What one pass of the order loop appends, and how a property of the two tables is
  carried through the loops over the orders and over the customers.
\<close>

lemma bindE_Inr_iff: "bindE m f = Inr y \<longleftrightarrow> (\<exists>x. m = Inr x \<and> f x = Inr y)"
  by (cases m) (simp_all add: bindE_def)

lemma one_order_shape:
  assumes "one_order ops ps customer is_b2b acq_date oid g = Inr ((order, items), g')"
  shows "\<exists>order_date selected pct g4.
      inject_nulls ops (order_record customer oid order_date selected pct) g4 = (order, g') \<and>
      line_items_of order customer oid selected pct = Inr items"
  using assms
  by (fastforce simp: one_order_def Let_def bindE_Inr_iff split_beta)

lemma order_record_fields:
  "o_subtotal (order_record c oid d selected pct) = round2 (order_subtotal selected)"
  "o_discount_amount (order_record c oid d selected pct)
     = round2 (order_discount_amount selected pct)"
  "o_revenue (order_record c oid d selected pct) = round2 (order_revenue selected pct)"
  "o_total_cogs (order_record c oid d selected pct) = Some (round2 (order_total_cogs selected))"
  "o_profit (order_record c oid d selected pct) = Some (round2 (order_profit selected pct))"
  "o_discount_percent (order_record c oid d selected pct) = pct"
  "o_num_items (order_record c oid d selected pct) = length selected"
  "o_order_id (order_record c oid d selected pct) = ''ORD'' @ zero_pad 7 oid"
  "o_customer_id (order_record c oid d selected pct) = c_customer_id c"
  "o_order_date (order_record c oid d selected pct) = Some (strftime_ymd d)"
  by (simp_all add: order_record_def)

lemma inject_nulls_fields:
  assumes "inject_nulls ops order g = (order', g')"
  shows "o_order_id order' = o_order_id order \<and> o_customer_id order' = o_customer_id order \<and>
         o_subtotal order' = o_subtotal order \<and>
         o_discount_percent order' = o_discount_percent order \<and>
         o_discount_amount order' = o_discount_amount order \<and>
         o_revenue order' = o_revenue order \<and> o_num_items order' = o_num_items order \<and>
         (o_total_cogs order' = None \<and> o_profit order' = None \<or>
          o_total_cogs order' = o_total_cogs order \<and> o_profit order' = o_profit order) \<and>
         (o_order_date order' = None \<or> o_order_date order' = o_order_date order)"
  using assms by (auto simp: inject_nulls_def Let_def split_beta split: if_splits)

lemma map_err_Inr:
  "map_err f xs = Inr ys \<Longrightarrow> list_all2 (\<lambda>x y. f x = Inr y) xs ys"
  by (induction xs arbitrary: ys) (auto simp: bindE_Inr_iff)

lemma map_err_member:
  assumes "map_err f xs = Inr ys" "y \<in> set ys"
  shows "\<exists>x\<in>set xs. f x = Inr y"
proof -
  from assms(1) have "list_all2 (\<lambda>x y. f x = Inr y) xs ys" by (rule map_err_Inr)
  with assms(2) show ?thesis
    by (metis (mono_tags, lifting) in_set_conv_nth list_all2_conv_all_nth)
qed

lemma line_items_of_member:
  assumes "line_items_of order customer oid selected pct = Inr items" "li \<in> set items"
  shows "\<exists>idx item. item \<in> set selected \<and>
           make_line_item order customer oid (order_subtotal selected)
             (order_discount_amount selected pct) (idx, item) = Inr li"
proof -
  from map_err_member[OF assms[unfolded line_items_of_def]] obtain e where
    e: "e \<in> set (zip [1 ..< Suc (length selected)] selected)"
    and m: "make_line_item order customer oid (order_subtotal selected)
             (order_discount_amount selected pct) e = Inr li" by blast
  from e have "snd e \<in> set selected" by (metis in_set_zipE prod.collapse)
  with m show ?thesis by (metis prod.collapse)
qed

lemma make_line_item_fields:
  assumes "make_line_item order c oid S D (idx, item) = Inr li"
  shows "S \<noteq> 0"
    and "li_order_id li = o_order_id order"
    and "li_subtotal li = round2 (item_price item)"
    and "li_discount_amount li = round2 (fl (fl (item_price item / S) * D))"
    and "li_revenue li = round2 (fl (item_price item - fl (fl (item_price item / S) * D)))"
    and "li_cogs li = Some (round2 (item_cost item))"
    and "li_profit li =
           Some (round2 (fl (fl (item_price item - fl (fl (item_price item / S) * D))
                             - item_cost item)))"
    and "li_order_date li = o_order_date order"
    and "li_quantity li = snd item"
proof -
  show S: "S \<noteq> 0" using assms by (simp add: make_line_item_def Let_def split: if_splits)
  have eq: "li = \<lparr>li_line_item_id = ''LI'' @ zero_pad 7 oid @ ''_'' @ digits idx,
                    li_order_id = o_order_id order,
                    li_customer_id = c_customer_id c,
                    li_product_id = p_product_id (fst item),
                    li_product_name = p_name (fst item),
                    li_category = p_category (fst item),
                    li_quantity = snd item,
                    li_unit_price = p_unit_price (fst item),
                    li_subtotal = round2 (item_price item),
                    li_discount_amount = round2 (fl (fl (item_price item / S) * D)),
                    li_revenue = round2 (fl (item_price item - fl (fl (item_price item / S) * D))),
                    li_cogs = Some (round2 (item_cost item)),
                    li_profit = Some (round2 (fl (fl (item_price item - fl (fl (item_price item / S) * D))
                             - item_cost item))),
                    li_order_date = o_order_date order\<rparr>"
    using assms S unfolding make_line_item_def Let_def fst_conv snd_conv
    by (simp only: if_False sum.inject)
  show "li_order_id li = o_order_id order" by (subst eq) simp
  show "li_subtotal li = round2 (item_price item)" by (subst eq) simp
  show "li_discount_amount li = round2 (fl (fl (item_price item / S) * D))" by (subst eq) simp
  show "li_revenue li = round2 (fl (item_price item - fl (fl (item_price item / S) * D)))"
    by (subst eq) simp
  show "li_cogs li = Some (round2 (item_cost item))" by (subst eq) simp
  show "li_profit li =
           Some (round2 (fl (fl (item_price item - fl (fl (item_price item / S) * D))
                             - item_cost item)))" by (subst eq) simp
  show "li_order_date li = o_order_date order" by (subst eq) simp
  show "li_quantity li = snd item" by (subst eq) simp
qed

lemma orders_loop_inv:
  assumes step: "\<And>oid g1 order items g2 os lis.
      one_order ops ps c is_b2b acq oid g1 = Inr ((order, items), g2) \<Longrightarrow> I os lis
        \<Longrightarrow> I (os @ [order]) (lis @ items)"
    and run: "orders_loop ops ps c is_b2b acq n st g = Inr (st', g')"
    and init: "I (orders_data st) (line_items_data st)"
  shows "I (orders_data st') (line_items_data st')"
  using run init
proof (induction n arbitrary: st g)
  case 0
  then show ?case by simp
next
  case (Suc n)
  from Suc.prems(1) obtain order items g1 where
    one: "one_order ops ps c is_b2b acq (order_id st) g = Inr ((order, items), g1)"
    and rest: "orders_loop ops ps c is_b2b acq n
       \<lparr>orders_data = orders_data st @ [order],
        line_items_data = line_items_data st @ items,
        order_id = order_id st + 1\<rparr> g1 = Inr (st', g')"
    by (auto simp: bindE_Inr_iff)
  have "I (orders_data st @ [order]) (line_items_data st @ items)"
    using one Suc.prems(2) by (rule step)
  then show ?case using Suc.IH[OF rest] by simp
qed

lemma customer_orders_inv:
  assumes step: "\<And>acq oid g1 order items g2 os lis.
      (case c_acquisition_date c of None \<Rightarrow> Inr (datetime_ymd 2023 1 1)
       | Some day \<Rightarrow> strptime_ymd day) = Inr acq \<Longrightarrow>
      one_order ops ps c (c_segment c = ''B2B'') acq oid g1 = Inr ((order, items), g2) \<Longrightarrow>
      I os lis \<Longrightarrow> I (os @ [order]) (lis @ items)"
    and run: "customer_orders ops ps c st g = Inr (st', g')"
    and init: "I (orders_data st) (line_items_data st)"
  shows "I (orders_data st') (line_items_data st')"
proof -
  from run obtain acq n g1 where
    acq: "(case c_acquisition_date c of None \<Rightarrow> Inr (datetime_ymd 2023 1 1)
       | Some day \<Rightarrow> strptime_ymd day) = Inr acq"
    and loop: "orders_loop ops ps c (c_segment c = ''B2B'') acq n st g1 = Inr (st', g')"
    by (auto simp: customer_orders_def Let_def bindE_Inr_iff)
  show ?thesis
    by (rule orders_loop_inv[where I = I, OF step[OF acq] loop init])
qed

lemma customers_loop_inv:
  assumes step: "\<And>c acq oid g1 order items g2 os lis. c \<in> set cs \<Longrightarrow>
      (case c_acquisition_date c of None \<Rightarrow> Inr (datetime_ymd 2023 1 1)
       | Some day \<Rightarrow> strptime_ymd day) = Inr acq \<Longrightarrow>
      one_order ops ps c (c_segment c = ''B2B'') acq oid g1 = Inr ((order, items), g2) \<Longrightarrow>
      I os lis \<Longrightarrow> I (os @ [order]) (lis @ items)"
    and run: "customers_loop ops ps cs st g = Inr (st', g')"
    and init: "I (orders_data st) (line_items_data st)"
  shows "I (orders_data st') (line_items_data st')"
  using step run init
proof (induction cs arbitrary: st g)
  case Nil
  then show ?case by simp
next
  case (Cons c cs)
  from Cons.prems(2) obtain st1 g1 where
    first: "customer_orders ops ps c st g = Inr (st1, g1)"
    and rest: "customers_loop ops ps cs st1 g1 = Inr (st', g')"
    by (auto simp: bindE_Inr_iff)
  have "I (orders_data st1) (line_items_data st1)"
    by (rule customer_orders_inv[where I = I, OF _ first Cons.prems(3)])
      (rule Cons.prems(1), simp_all)
  then show ?case
    by (intro Cons.IH[OF _ rest]) (rule Cons.prems(1), simp_all)
qed

lemma generate_orders_inv:
  assumes step: "\<And>c acq oid g1 order items g2 os lis. c \<in> set cs \<Longrightarrow>
      (case c_acquisition_date c of None \<Rightarrow> Inr (datetime_ymd 2023 1 1)
       | Some day \<Rightarrow> strptime_ymd day) = Inr acq \<Longrightarrow>
      one_order ops ps c (c_segment c = ''B2B'') acq oid g1 = Inr ((order, items), g2) \<Longrightarrow>
      I os lis \<Longrightarrow> I (os @ [order]) (lis @ items)"
    and run: "generate_orders ops self g = Inr (self', g')"
    and cs: "customers self = Some cs" and ps: "products self = Some ps"
    and init: "I [] []"
  shows "\<exists>os lis. orders self' = Some os \<and> order_line_items self' = Some lis \<and> I os lis \<and>
           customers self' = customers self \<and> products self' = products self"
proof -
  from run cs ps obtain st where
    loop: "customers_loop ops ps cs \<lparr>orders_data = [], line_items_data = [], order_id = 1\<rparr> g
             = Inr (st, g')"
    and self': "self' = self\<lparr>orders := Some (orders_data st),
                    order_line_items := Some (line_items_data st)\<rparr>"
    by (auto simp: generate_orders_def bindE_Inr_iff)
  have "I (orders_data st) (line_items_data st)"
    by (rule customers_loop_inv[where I = I, OF step loop]) (simp_all add: init)
  then show ?thesis by (simp add: self')
qed

lemma generate_orders_inputs:
  assumes "generate_orders ops self g = Inr (self', g')"
  shows "\<exists>cs ps. customers self = Some cs \<and> products self = Some ps"
  using assms by (auto simp: generate_orders_def split: option.splits)

lemma generate_orders_tables:
  assumes step: "\<And>c acq oid g1 order items g2 os lis.
      one_order ops ps c (c_segment c = ''B2B'') acq oid g1 = Inr ((order, items), g2) \<Longrightarrow>
      I os lis \<Longrightarrow> I (os @ [order]) (lis @ items)"
    and run: "generate_orders ops self g = Inr (self', g')"
    and ps: "products self = Some ps"
    and init: "I [] []"
  shows "\<exists>os lis. orders self' = Some os \<and> order_line_items self' = Some lis \<and> I os lis"
proof -
  from generate_orders_inputs[OF run] ps obtain cs where cs: "customers self = Some cs" by auto
  from generate_orders_inv[where I = I, OF _ run cs ps init] step show ?thesis by blast
qed

subsection \<open>Certified roundings\<close>

text \<open>
  A rounding is checked from its result: \<open>fl x = k * g\<close> when \<open>g\<close> is the spacing of the
  floats around \<open>x\<close> and \<open>k * g\<close> is nearer to \<open>x\<close> than half a spacing, or exactly half
  a spacing away with \<open>k\<close> even.
\<close>

lemma rhe_unique: "\<bar>x - of_int k\<bar> < 1 / 2 \<Longrightarrow> rhe x = k"
proof -
  assume a: "\<bar>x - of_int k\<bar> < 1 / 2"
  have "rhe x \<le> k"
  proof (rule ccontr)
    assume "\<not> rhe x \<le> k"
    then have "k + 1 \<le> rhe x" by simp
    then have "(of_int (k + 1) :: rat) \<le> of_int (rhe x)" by (simp only: of_int_le_iff)
    then show False using a rhe_err[of x] by simp
  qed
  moreover have "k \<le> rhe x"
  proof (rule ccontr)
    assume "\<not> k \<le> rhe x"
    then have "rhe x + 1 \<le> k" by simp
    then have "(of_int (rhe x + 1) :: rat) \<le> of_int k" by (simp only: of_int_le_iff)
    then show False using a rhe_err[of x] by simp
  qed
  ultimately show ?thesis by simp
qed

lemma fl_cert:
  assumes g: "g = 2 powi e" and e: "- 1074 \<le> e"
    and lo: "2 ^ 52 * g \<le> \<bar>x\<bar>" and hi: "\<bar>x\<bar> < 2 ^ 53 * g"
    and v: "v = of_int k * g" and near: "\<bar>x - v\<bar> < g / 2"
  shows "fl x = v"
proof -
  have gpos: "0 < g" unfolding g by (rule powi2_pos)
  have xnz: "x \<noteq> 0" using lo gpos by auto
  have "2 powi (e + 52) = 2 powi e * (2 powi 52 :: rat)" by (rule power_int_add) simp
  then have p52: "(2::rat) powi (e + 52) = 2 ^ 52 * g" by (simp add: g)
  have "2 powi (e + 52 + 1) = 2 powi (e + 52) * (2 powi 1 :: rat)" by (rule power_int_add) simp
  then have p53: "(2::rat) powi (e + 52 + 1) = 2 ^ 53 * g" by (simp add: p52)
  have "2 powi (e + 52) \<le> \<bar>x\<bar>" using lo by (simp only: p52)
  with xnz have "e + 52 \<le> expo x" by (rule expo_ge)
  moreover have "\<bar>x\<bar> < 2 powi (e + 52 + 1)" using hi by (simp only: p53)
  with xnz have "expo x < e + 52 + 1" by (rule expo_less)
  ultimately have "expo x = e + 52" by simp
  then have u: "ulp_exp x = e" using e by (simp add: ulp_exp_def)
  have "x / g - of_int k = (x - v) / g" using gpos by (simp add: v diff_divide_distrib)
  then have "\<bar>x / g - of_int k\<bar> = \<bar>x - v\<bar> / \<bar>g\<bar>" by (simp only: abs_divide)
  also have "\<dots> = \<bar>x - v\<bar> / g" using gpos by simp
  also have "\<dots> < 1 / 2" using near gpos by (simp add: field_simps)
  finally have "rhe (x / g) = k" by (rule rhe_unique)
  then show ?thesis using xnz by (simp add: fl_def Let_def u g[symmetric] v)
qed

lemma rhe_tie:
  assumes "even k" "x = of_int k + 1 / 2 \<or> x = of_int k - 1 / 2"
  shows "rhe x = k"
  using assms(2)
proof
  assume x: "x = of_int k + 1 / 2"
  have "\<lfloor>x\<rfloor> = k" unfolding x by (rule floor_unique) simp_all
  then show ?thesis using assms(1) by (simp add: rhe_def Let_def x)
next
  assume x: "x = of_int k - 1 / 2"
  have "\<lfloor>x\<rfloor> = k - 1" unfolding x by (rule floor_unique) simp_all
  then show ?thesis using assms(1) by (simp add: rhe_def Let_def x)
qed

lemma fl_cert_tie:
  assumes g: "g = 2 powi e" and e: "- 1074 \<le> e"
    and lo: "2 ^ 52 * g \<le> \<bar>x\<bar>" and hi: "\<bar>x\<bar> < 2 ^ 53 * g"
    and v: "v = of_int k * g" and tie: "\<bar>x - v\<bar> = g / 2" and ev: "even k"
  shows "fl x = v"
proof -
  have gpos: "0 < g" unfolding g by (rule powi2_pos)
  have xnz: "x \<noteq> 0" using lo gpos by auto
  have "2 powi (e + 52) = 2 powi e * (2 powi 52 :: rat)" by (rule power_int_add) simp
  then have p52: "(2::rat) powi (e + 52) = 2 ^ 52 * g" by (simp add: g)
  have "2 powi (e + 52 + 1) = 2 powi (e + 52) * (2 powi 1 :: rat)" by (rule power_int_add) simp
  then have p53: "(2::rat) powi (e + 52 + 1) = 2 ^ 53 * g" by (simp add: p52)
  have "2 powi (e + 52) \<le> \<bar>x\<bar>" using lo by (simp only: p52)
  with xnz have "e + 52 \<le> expo x" by (rule expo_ge)
  moreover have "\<bar>x\<bar> < 2 powi (e + 52 + 1)" using hi by (simp only: p53)
  with xnz have "expo x < e + 52 + 1" by (rule expo_less)
  ultimately have "expo x = e + 52" by simp
  then have u: "ulp_exp x = e" using e by (simp add: ulp_exp_def)
  have d: "x / g - of_int k = (x - v) / g" using gpos by (simp add: v diff_divide_distrib)
  have "x - v = g / 2 \<or> x - v = - (g / 2)" using tie by linarith
  then have "x / g - of_int k = 1 / 2 \<or> x / g - of_int k = - (1 / 2)"
    unfolding d using gpos by auto
  then have "x / g = of_int k + 1 / 2 \<or> x / g = of_int k - 1 / 2" by linarith
  with ev have "rhe (x / g) = k" by (rule rhe_tie)
  then show ?thesis using xnz by (simp add: fl_def Let_def u g[symmetric] v)
qed

text \<open>The roundings met in the small run.\<close>

lemma ex_fl_1: "fl (1 / 200) = 5764607523034235 / 1152921504606846976"
  by (rule fl_cert[where k = "5764607523034235" and e = "-60" and g = "1 / 2 ^ 60"]) simp_all

lemma ex_fl_2: "fl (3 / 100) = 1080863910568919 / 36028797018963968"
  by (rule fl_cert[where k = "8646911284551352" and e = "-58" and g = "1 / 2 ^ 58"]) simp_all

lemma ex_fl_3: "fl (1 / 100) = 5764607523034235 / 576460752303423488"
  by (rule fl_cert[where k = "5764607523034235" and e = "-59" and g = "1 / 2 ^ 59"]) simp_all

lemma ex_fl_4: "fl (1 / 50) = 5764607523034235 / 288230376151711744"
  by (rule fl_cert[where k = "5764607523034235" and e = "-58" and g = "1 / 2 ^ 58"]) simp_all

lemma ex_fl_5: "fl (1899 / 100) = 5345209807735357 / 281474976710656"
  by (rule fl_cert[where k = "5345209807735357" and e = "-48" and g = "1 / 2 ^ 48"]) simp_all

lemma ex_fl_6: "fl (5345209807735357 / 140737488355328) = 5345209807735357 / 140737488355328"
  by (rule fl_cert[where k = "5345209807735357" and e = "-47" and g = "1 / 2 ^ 47"]) simp_all

lemma ex_fl_7: "fl (16035629423206071 / 281474976710656) = 2004453677900759 / 35184372088832"
  by (rule fl_cert_tie[where k = "8017814711603036" and e = "-47" and g = "1 / 2 ^ 47"]) simp_all

lemma ex_fl_8: "fl (13363024519338393 / 140737488355328) = 1670378064917299 / 17592186044416"
  by (rule fl_cert_tie[where k = "6681512259669196" and e = "-46" and g = "1 / 2 ^ 46"]) simp_all

lemma ex_fl_9: "fl (1 / 10) = 3602879701896397 / 36028797018963968"
  by (rule fl_cert[where k = "7205759403792794" and e = "-56" and g = "1 / 2 ^ 56"]) simp_all

lemma ex_fl_10: "fl (6018171224583518697105271071703 / 633825300114114700748351602688) = 5345209807735357 / 562949953421312"
  by (rule fl_cert[where k = "5345209807735357" and e = "-49" and g = "1 / 2 ^ 49"]) simp_all

lemma ex_fl_11: "fl (48106888269618211 / 562949953421312) = 1503340258425569 / 17592186044416"
  by (rule fl_cert[where k = "6013361033702276" and e = "-46" and g = "1 / 2 ^ 46"]) simp_all

lemma ex_fl_12: "fl (17 / 2) = 17 / 2"
  by (rule fl_cert[where k = "4785074604081152" and e = "-49" and g = "1 / 2 ^ 49"]) simp_all

lemma ex_fl_13: "fl (51 / 2) = 51 / 2"
  by (rule fl_cert[where k = "7177611906121728" and e = "-48" and g = "1 / 2 ^ 48"]) simp_all

lemma ex_fl_14: "fl (85 / 2) = 85 / 2"
  by (rule fl_cert[where k = "5981343255101440" and e = "-47" and g = "1 / 2 ^ 47"]) simp_all

lemma ex_fl_15: "fl (755672351537889 / 17592186044416) = 755672351537889 / 17592186044416"
  by (rule fl_cert[where k = "6045378812303112" and e = "-47" and g = "1 / 2 ^ 47"]) simp_all

lemma ex_fl_16: "fl (41759451622932475 / 4398046511104) = 5219931452866559 / 549755813888"
  by (rule fl_cert[where k = "5219931452866559" and e = "-39" and g = "1 / 2 ^ 39"]) simp_all

lemma ex_fl_17: "fl (1899 / 20) = 6681512259669197 / 70368744177664"
  by (rule fl_cert[where k = "6681512259669197" and e = "-46" and g = "1 / 2 ^ 46"]) simp_all

lemma ex_fl_18: "fl (133630245193383925 / 140737488355328) = 8351890324586495 / 8796093022208"
  by (rule fl_cert[where k = "8351890324586495" and e = "-43" and g = "1 / 2 ^ 43"]) simp_all

lemma ex_fl_19: "fl (949 / 100) = 5342395057968251 / 562949953421312"
  by (rule fl_cert[where k = "5342395057968251" and e = "-49" and g = "1 / 2 ^ 49"]) simp_all

lemma ex_fl_20: "fl (37583506460639225 / 4398046511104) = 4697938307579903 / 549755813888"
  by (rule fl_cert[where k = "4697938307579903" and e = "-39" and g = "1 / 2 ^ 39"]) simp_all

lemma ex_fl_21: "fl (1709 / 20) = 6013009189981389 / 70368744177664"
  by (rule fl_cert[where k = "6013009189981389" and e = "-46" and g = "1 / 2 ^ 46"]) simp_all

lemma ex_fl_22: "fl (18891808788447225 / 4398046511104) = 2361476098555903 / 549755813888"
  by (rule fl_cert[where k = "4722952197111806" and e = "-40" and g = "1 / 2 ^ 40"]) simp_all

lemma ex_fl_23: "fl (859 / 20) = 3022337562430669 / 70368744177664"
  by (rule fl_cert[where k = "6044675124861338" and e = "-47" and g = "1 / 2 ^ 47"]) simp_all

lemma ex_fl_24: "fl (5345209807735357 / 13363024519338392) = 3602879701896397 / 9007199254740992"
  by (rule fl_cert[where k = "7205759403792794" and e = "-54" and g = "1 / 2 ^ 54"]) simp_all

lemma ex_fl_25: "fl (19258147918667260551312807808729 / 5070602400912917605986812821504) = 2138083923094143 / 562949953421312"
  by (rule fl_cert[where k = "8552335692376572" and e = "-51" and g = "1 / 2 ^ 51"]) simp_all

lemma ex_fl_26: "fl (19242755307847285 / 562949953421312) = 4810688826961821 / 140737488355328"
  by (rule fl_cert[where k = "4810688826961821" and e = "-47" and g = "1 / 2 ^ 47"]) simp_all

lemma ex_fl_27: "fl (2418151524921245 / 140737488355328) = 2418151524921245 / 140737488355328"
  by (rule fl_cert[where k = "4836303049842490" and e = "-48" and g = "1 / 2 ^ 48"]) simp_all

lemma ex_fl_28: "fl (133630245193383925 / 35184372088832) = 8351890324586495 / 2199023255552"
  by (rule fl_cert[where k = "8351890324586495" and e = "-41" and g = "1 / 2 ^ 41"]) simp_all

lemma ex_fl_29: "fl (1899 / 50) = 5345209807735357 / 140737488355328"
  by (rule fl_cert[where k = "5345209807735357" and e = "-47" and g = "1 / 2 ^ 47"]) simp_all

lemma ex_fl_30: "fl (53452098077353575 / 140737488355328) = 6681512259669197 / 17592186044416"
  by (rule fl_cert[where k = "6681512259669197" and e = "-44" and g = "1 / 2 ^ 44"]) simp_all

lemma ex_fl_31: "fl (19 / 5) = 4278419646001971 / 1125899906842624"
  by (rule fl_cert[where k = "8556839292003942" and e = "-51" and g = "1 / 2 ^ 51"]) simp_all

lemma ex_fl_32: "fl (120267220674045525 / 35184372088832) = 7516701292127845 / 2199023255552"
  by (rule fl_cert[where k = "7516701292127845" and e = "-41" and g = "1 / 2 ^ 41"]) simp_all

lemma ex_fl_33: "fl (1709 / 50) = 4810407351985111 / 140737488355328"
  by (rule fl_cert[where k = "4810407351985111" and e = "-47" and g = "1 / 2 ^ 47"]) simp_all

lemma ex_fl_34: "fl (60453788123031125 / 35184372088832) = 7556723515378891 / 4398046511104"
  by (rule fl_cert[where k = "7556723515378891" and e = "-42" and g = "1 / 2 ^ 42"]) simp_all

lemma ex_fl_35: "fl (859 / 50) = 2417870049944535 / 140737488355328"
  by (rule fl_cert[where k = "4835740099889070" and e = "-48" and g = "1 / 2 ^ 48"]) simp_all

lemma ex_fl_36: "fl (2004453677900759 / 3340756129834598) = 1351079888211149 / 2251799813685248"
  by (rule fl_cert[where k = "5404319552844596" and e = "-53" and g = "1 / 2 ^ 53"]) simp_all

lemma ex_fl_37: "fl (7221805469500223374893528895193 / 1267650600228229401496703205376) = 6414251769282429 / 1125899906842624"
  by (rule fl_cert[where k = "6414251769282429" and e = "-50" and g = "1 / 2 ^ 50"]) simp_all

lemma ex_fl_38: "fl (57728265923541859 / 1125899906842624) = 1804008310110683 / 35184372088832"
  by (rule fl_cert[where k = "7216033240442732" and e = "-47" and g = "1 / 2 ^ 47"]) simp_all

lemma ex_fl_39: "fl (906806821845467 / 35184372088832) = 906806821845467 / 35184372088832"
  by (rule fl_cert[where k = "7254454574763736" and e = "-48" and g = "1 / 2 ^ 48"]) simp_all

lemma ex_fl_40: "fl (50111341947518975 / 8796093022208) = 5697"
  by (rule fl_cert[where k = "6263917743439872" and e = "-40" and g = "1 / 2 ^ 40"]) simp_all

lemma ex_fl_41: "fl (5697 / 100) = 2004453677900759 / 35184372088832"
  by (rule fl_cert[where k = "8017814711603036" and e = "-47" and g = "1 / 2 ^ 47"]) simp_all

lemma ex_fl_42: "fl (160356294232060725 / 281474976710656) = 2505567097375949 / 4398046511104"
  by (rule fl_cert[where k = "5011134194751898" and e = "-43" and g = "1 / 2 ^ 43"]) simp_all

lemma ex_fl_43: "fl (57 / 10) = 6417629469002957 / 1125899906842624"
  by (rule fl_cert[where k = "6417629469002957" and e = "-50" and g = "1 / 2 ^ 50"]) simp_all

lemma ex_fl_44: "fl (45100207752767075 / 8796093022208) = 1409381492273971 / 274877906944"
  by (rule fl_cert[where k = "5637525969095884" and e = "-40" and g = "1 / 2 ^ 40"]) simp_all

lemma ex_fl_45: "fl (5127 / 100) = 7215611027977667 / 140737488355328"
  by (rule fl_cert[where k = "7215611027977667" and e = "-47" and g = "1 / 2 ^ 47"]) simp_all

lemma ex_fl_46: "fl (22670170546136675 / 8796093022208) = 5667542636534169 / 2199023255552"
  by (rule fl_cert[where k = "5667542636534169" and e = "-41" and g = "1 / 2 ^ 41"]) simp_all

lemma ex_fl_47: "fl (2577 / 100) = 7253610149833605 / 281474976710656"
  by (rule fl_cert[where k = "7253610149833605" and e = "-48" and g = "1 / 2 ^ 48"]) simp_all

lemma ex_fl_48: "fl (5345209807735357 / 281474976710656) = 5345209807735357 / 281474976710656"
  by (rule fl_cert[where k = "5345209807735357" and e = "-48" and g = "1 / 2 ^ 48"]) simp_all

lemma ex_fl_49: "fl (2952672505694781 / 281474976710656) = 2952672505694781 / 281474976710656"
  by (rule fl_cert[where k = "5905345011389562" and e = "-49" and g = "1 / 2 ^ 49"]) simp_all

lemma ex_fl_50: "fl (133630245193383925 / 70368744177664) = 8351890324586495 / 4398046511104"
  by (rule fl_cert[where k = "8351890324586495" and e = "-42" and g = "1 / 2 ^ 42"]) simp_all

lemma ex_fl_51: "fl (73816812642369525 / 70368744177664) = 4613550790148095 / 4398046511104"
  by (rule fl_cert[where k = "4613550790148095" and e = "-42" and g = "1 / 2 ^ 42"]) simp_all

lemma ex_fl_52: "fl (1049 / 100) = 5905345011389563 / 562949953421312"
  by (rule fl_cert[where k = "5905345011389563" and e = "-49" and g = "1 / 2 ^ 49"]) simp_all

lemma ex_fl_53: "fl (48109703019385325 / 562949953421312) = 3006856438711583 / 35184372088832"
  by (rule fl_cert[where k = "6013712877423166" and e = "-46" and g = "1 / 2 ^ 46"]) simp_all

lemma ex_fl_54: "fl (75171410967789575 / 8796093022208) = 8546"
  by (rule fl_cert[where k = "4698213185486848" and e = "-39" and g = "1 / 2 ^ 39"]) simp_all

lemma ex_fl_55: "fl (4273 / 50) = 6013712877423165 / 70368744177664"
  by (rule fl_cert[where k = "6013712877423165" and e = "-46" and g = "1 / 2 ^ 46"]) simp_all

lemma ex_fl_56: "fl (3022337562430669 / 70368744177664) = 3022337562430669 / 70368744177664"
  by (rule fl_cert[where k = "6044675124861338" and e = "-47" and g = "1 / 2 ^ 47"]) simp_all

lemma ex_fl_57: "fl (75558439060766725 / 17592186044416) = 4295"
  by (rule fl_cert[where k = "4722402441297920" and e = "-40" and g = "1 / 2 ^ 40"]) simp_all

lemma ex_rhe_1: "rhe (5219931452866559 / 549755813888) = 9495"
  by (rule rhe_unique) simp

lemma ex_rhe_2: "rhe (8351890324586495 / 8796093022208) = 949"
  by (rule rhe_unique) simp

lemma ex_rhe_3: "rhe (4697938307579903 / 549755813888) = 8545"
  by (rule rhe_unique) simp

lemma ex_rhe_4: "rhe (2361476098555903 / 549755813888) = 4295"
  by (rule rhe_unique) simp

lemma ex_rhe_5: "rhe (8351890324586495 / 2199023255552) = 3798"
  by (rule rhe_unique) simp

lemma ex_rhe_6: "rhe (6681512259669197 / 17592186044416) = 380"
  by (rule rhe_unique) simp

lemma ex_rhe_7: "rhe (7516701292127845 / 2199023255552) = 3418"
  by (rule rhe_unique) simp

lemma ex_rhe_8: "rhe (7556723515378891 / 4398046511104) = 1718"
  by (rule rhe_unique) simp

lemma ex_rhe_9: "rhe (2505567097375949 / 4398046511104) = 570"
  by (rule rhe_unique) simp

lemma ex_rhe_10: "rhe (1409381492273971 / 274877906944) = 5127"
  by (rule rhe_unique) simp

lemma ex_rhe_11: "rhe (5667542636534169 / 2199023255552) = 2577"
  by (rule rhe_unique) simp

lemma ex_rhe_12: "rhe (8351890324586495 / 4398046511104) = 1899"
  by (rule rhe_unique) simp

lemma ex_rhe_13: "rhe (4613550790148095 / 4398046511104) = 1049"
  by (rule rhe_unique) simp

lemmas example_roundings = ex_fl_1 ex_fl_2 ex_fl_3 ex_fl_4 ex_fl_5 ex_fl_6 ex_fl_7 ex_fl_8 ex_fl_9 ex_fl_10 ex_fl_11 ex_fl_12 ex_fl_13 ex_fl_14 ex_fl_15 ex_fl_16 ex_fl_17 ex_fl_18 ex_fl_19 ex_fl_20 ex_fl_21 ex_fl_22 ex_fl_23 ex_fl_24 ex_fl_25 ex_fl_26 ex_fl_27 ex_fl_28 ex_fl_29 ex_fl_30 ex_fl_31 ex_fl_32 ex_fl_33 ex_fl_34 ex_fl_35 ex_fl_36 ex_fl_37 ex_fl_38 ex_fl_39 ex_fl_40 ex_fl_41 ex_fl_42 ex_fl_43 ex_fl_44 ex_fl_45 ex_fl_46 ex_fl_47 ex_fl_48 ex_fl_49 ex_fl_50 ex_fl_51 ex_fl_52 ex_fl_53 ex_fl_54 ex_fl_55 ex_fl_56 ex_fl_57 ex_rhe_1 ex_rhe_2 ex_rhe_3 ex_rhe_4 ex_rhe_5 ex_rhe_6 ex_rhe_7 ex_rhe_8 ex_rhe_9 ex_rhe_10 ex_rhe_11 ex_rhe_12 ex_rhe_13

subsection \<open>The small run, evaluated\<close>

lemma tape_draws:
  "rng_random tape (u # us, ks) = (if 0 \<le> u \<and> u < 1 then u else 0, (us, ks))"
  "rng_randint tape a b (us, k # ks) = (if a \<le> k \<and> k \<le> b then k else a, (us, ks))"
  by (simp_all add: tape_def tape_random_def tape_randint_def)

lemma ex_strings:
  "zero_pad 7 1 = ''0000001''" "zero_pad 7 2 = ''0000002''" "digits 1 = ''1''" "digits 2 = ''2''"
  "zero_pad 6 1 = ''000001''"
  "zero_pad 7 (Suc 0) = ''0000001''" "digits (Suc 0) = ''1''" "zero_pad 6 (Suc 0) = ''000001''"
  by code_simp+

lemma ex_chars: "char_of (49 :: nat) = CHR ''1''" "char_of (50 :: nat) = CHR ''2''"
  by code_simp+

lemma length_products_data: "length products_data = 10"
  by (simp add: products_data_def)

lemma product0:
  "p_unit_price (products_data ! 0) = fl (1899 / 100)"
  "p_avg_cogs (products_data ! 0) = fl (850 / 100)"
  "p_product_id (products_data ! 0) = ''P001''"
  "p_name (products_data ! 0) = ''Organic Green Tea''"
  "p_category (products_data ! 0) = ''Beverage''"
  by (simp_all add: products_data_def)

lemma ex_weighted:
  "weighted_random tape [40, 50, 10] (1 / 2 # us, ks) = Inr (1, (us, ks))"
  "weighted_random tape [30, 25, 15, 12, 15, 3] (0 # us, ks) = Inr (0, (us, ks))"
  "weighted_random tape [50, 20, 15, 10, 5] (0 # us, ks) = Inr (0, (us, ks))"
  "weighted_random tape [70, 25, 5] (3 / 4 # us, ks) = Inr (1, (us, ks))"
  "weighted_random tape [70, 25, 5] (0 # us, ks) = Inr (0, (us, ks))"
  by (simp_all add: weighted_random_def tape_draws eval_simps)

lemma ex_ymd:
  "datetime_ymd 2022 (Suc 0) 1 = 738156 * US_PER_DAY"
  "datetime_ymd 2024 11 30 = 739220 * US_PER_DAY"
  "datetime_ymd 2023 (Suc 0) 1 = 738521 * US_PER_DAY"
  "datetime_ymd 2021 6 1 = 737942 * US_PER_DAY"
  by (simp_all add: date_simps)

lemma td_days_scaled: "td_days (a * US_PER_DAY - b * US_PER_DAY) = a - b"
  using td_days_mult[of "a - b"] by (simp add: algebra_simps)

lemma strftime_scaled: "strftime_ymd (a * US_PER_DAY) = a"
  using td_days_mult[of a] by (simp add: strftime_ymd_def td_days_def)

lemma ex_dates:
  "random_date tape (738156 * US_PER_DAY) (739220 * US_PER_DAY) (1 / 2 # us, ks)
     = Inr (738688 * US_PER_DAY, (us, ks))"
  "random_date tape (738688 * US_PER_DAY) (739220 * US_PER_DAY) (1 / 2 # us, ks)
     = Inr (738954 * US_PER_DAY, (us, ks))"
  "random_date tape (738688 * US_PER_DAY) (739220 * US_PER_DAY) (1 / 4 # us, ks)
     = Inr (738821 * US_PER_DAY, (us, ks))"
  by (simp_all add: random_date_def tape_draws eval_simps date_simps)

lemma ex_customer:
  "d2c_customer tape 1 (1 / 2 # 1 / 2 # 0 # 0 # 1 / 2 # 1 / 2 # us, ks)
     = Inr (example_customer, (us, ks))"
  by (simp add: d2c_customer_def ex_ymd ex_dates weighted_choice_def ex_weighted py_index_def
      statuses_def channels_def countries_def tape_draws example_roundings ex_strings
      example_customer_def td_days_scaled td_days_mult strftime_scaled bindE_def Let_def)

lemma ex_customers:
  "generate_customers tape 1 0 (generate_products init)
     (1 / 2 # 1 / 2 # 0 # 0 # 1 / 2 # 1 / 2 # us, ks)
   = Inr (\<lparr>products = Some products_data, customers = Some [example_customer],
           orders = None, order_line_items = None\<rparr>, (us, ks))"
  by (simp add: generate_customers_def generate_products_def init_def
      ex_customer[unfolded One_nat_def] bindE_def)

lemma ex_select:
  "0 \<le> k \<Longrightarrow> k \<le> 9 \<Longrightarrow> 1 \<le> q \<Longrightarrow> q \<le> 3 \<Longrightarrow>
   select_product tape products_data False (us, k # q # ks)
     = Inr ((products_data ! nat k, q), (us, ks))"
  by (simp add: select_product_def py_randint_def py_index_def tape_draws
      length_products_data bindE_def)

lemma ex_selected1:
  "for_each (\<lambda>_. select_product tape products_data False) [0 ..< nat 2] (us, 0 # 2 # 0 # 3 # ks)
     = Inr (example_selected1, (us, ks))"
  by (simp add: ex_select bindE_def example_selected1_def upt_rec)

lemma ex_selected2:
  "for_each (\<lambda>_. select_product tape products_data False) [0 ..< nat 1] (us, 0 # 1 # ks)
     = Inr (example_selected2, (us, ks))"
  by (simp add: ex_select bindE_def example_selected2_def upt_rec)

lemmas money_simps = order_subtotal_def order_discount_amount_def
  order_revenue_def order_total_cogs_def order_profit_def fsum_def item_price_def item_cost_def
  round2_def

lemma ex_totals1:
  "round2 (order_subtotal example_selected1) = fl (9495 / 100)"
  "round2 (order_discount_amount example_selected1 10) = fl (949 / 100)"
  "round2 (order_revenue example_selected1 10) = fl (8545 / 100)"
  "round2 (order_total_cogs example_selected1) = fl (4250 / 100)"
  "round2 (order_profit example_selected1 10) = fl (4295 / 100)"
  by (simp_all add: money_simps example_selected1_def product0 example_roundings eval_simps)

lemma ex_totals2:
  "round2 (order_subtotal example_selected2) = fl (1899 / 100)"
  "round2 (order_discount_amount example_selected2 0) = 0"
  "round2 (order_revenue example_selected2 0) = fl (1899 / 100)"
  "round2 (order_total_cogs example_selected2) = fl (850 / 100)"
  "round2 (order_profit example_selected2 0) = fl (1049 / 100)"
  by (simp_all add: money_simps example_selected2_def product0 example_roundings eval_simps)

lemma ex_lengths: "length example_selected1 = 2" "length example_selected2 = 1"
  by (simp_all add: example_selected1_def example_selected2_def)

lemma ex_record1:
  "order_record example_customer 1 (738954 * US_PER_DAY) example_selected1 10 = example_order1"
  by (simp add: order_record_def ex_totals1 example_order1_def example_customer_def
      ex_lengths ex_strings strftime_scaled)

lemma ex_record2:
  "order_record example_customer 2 (738821 * US_PER_DAY) example_selected2 0
     = example_order2\<lparr>o_total_cogs := Some (fl (850 / 100)), o_profit := Some (fl (1049 / 100))\<rparr>"
  by (simp add: order_record_def ex_totals2 example_order2_def example_customer_def
      ex_lengths ex_strings strftime_scaled)

lemma ex_nulls:
  "inject_nulls tape order (1 / 2 # 1 / 2 # us, ks) = (order, (us, ks))"
  "inject_nulls tape order (1 / 2 # 0 # us, ks)
     = (order\<lparr>o_total_cogs := None, o_profit := None\<rparr>, (us, ks))"
  by (simp_all add: inject_nulls_def tape_draws example_roundings)

lemma ex_items1:
  "line_items_of example_order1 example_customer 1 example_selected1 10
     = Inr (take 2 example_items)"
  by (simp add: line_items_of_def make_line_item_def money_simps example_selected1_def
      example_items_def example_item_def example_order1_def example_customer_def
      product0 example_roundings eval_simps ex_strings ex_chars digits.simps upt_rec)

lemma ex_items2:
  "line_items_of example_order2 example_customer 2 example_selected2 0
     = Inr (drop 2 example_items)"
  by (simp add: line_items_of_def make_line_item_def money_simps example_selected2_def
      example_items_def example_item_def example_order2_def example_customer_def
      product0 example_roundings eval_simps ex_strings ex_chars digits.simps upt_rec)

lemma ex_window:
  "timedelta_days 532 = Inr (532 * US_PER_DAY)"
  "datetime_add (738688 * US_PER_DAY) (532 * US_PER_DAY) = Inr (739220 * US_PER_DAY)"
  by (simp_all add: date_simps)

lemma ex_order1:
  "one_order tape products_data example_customer False (738688 * US_PER_DAY) 1
     (1 / 2 # 3 / 4 # 1 / 2 # 1 / 2 # us, 2 # 0 # 2 # 0 # 3 # ks)
   = Inr ((example_order1, take 2 example_items), (us, ks))"
  by (simp add: one_order_def ex_ymd td_days_mult ex_window ex_dates py_randint_def tape_draws
      ex_selected1[unfolded nat_numeral] weighted_choice_def ex_weighted py_index_def ex_nulls
      ex_record1[unfolded One_nat_def] ex_items1[unfolded One_nat_def] bindE_def Let_def)

lemma ex_nulled2:
  "example_order2\<lparr>o_total_cogs := None, o_profit := None\<rparr> = example_order2"
  by (simp add: example_order2_def)

lemma ex_order2:
  "one_order tape products_data example_customer False (738688 * US_PER_DAY) 2
     (1 / 4 # 0 # 1 / 2 # 0 # us, 1 # 0 # 1 # ks)
   = Inr ((example_order2, drop 2 example_items), (us, ks))"
  by (simp add: one_order_def ex_ymd td_days_mult ex_window ex_dates py_randint_def tape_draws
      ex_select example_selected2_def[symmetric] weighted_choice_def ex_weighted
      py_index_def ex_nulls ex_record2 ex_nulled2 ex_items2 bindE_def Let_def)

lemma ex_orders:
  "generate_orders tape
     \<lparr>products = Some products_data, customers = Some [example_customer],
      orders = None, order_line_items = None\<rparr>
     ([1 / 2, 3 / 4, 1 / 2, 1 / 2, 1 / 4, 0, 1 / 2, 0], [2, 2, 0, 2, 0, 3, 1, 0, 1])
   = Inr (example_result, ([], []))"
proof -
  have acq: "strptime_ymd 738688 = Inr (738688 * US_PER_DAY)"
    by (simp add: strptime_ymd_def MAXORDINAL_def)
  show ?thesis
    by (simp add: generate_orders_def customer_orders_def acq py_randint_def tape_draws
        eval_nat_numeral ex_order1[unfolded One_nat_def] ex_order2[unfolded numeral_2_eq_2]
        example_result_def bindE_def Let_def example_customer_def[THEN arg_cong, of c_segment]
        example_customer_def[THEN arg_cong, of c_status]
        example_customer_def[THEN arg_cong, of c_acquisition_date])
qed

lemma example_orders:
  "generate_orders tape example_input example_order_tape = Inr (example_result, ([], []))"
  unfolding example_input_def example_order_tape_def by (rule ex_orders)

lemma ex_pipeline:
  "pipeline tape 1 0 init example_tape = Inr (example_result, ([], []))"
  by (simp add: pipeline_def example_tape_def ex_customers ex_orders bindE_def)

subsection \<open>Claims about the generated orders\<close>

text \<open>
  Claim C2: in the order table that \<^verbatim>\<open>generate_orders\<close> builds, the cost field of an
  order is null exactly when its profit field is null. The data-quality draw sets both
  fields to null together, and before it both hold a number.
\<close>

theorem order_cogs_profit_paired_null:
  assumes "generate_orders ops self g = Inr (self', g')"
  shows "\<exists>os. orders self' = Some os \<and>
           (\<forall>order\<in>set os. o_total_cogs order = None \<longleftrightarrow> o_profit order = None)"
proof -
  from generate_orders_inputs[OF assms] obtain ps where ps: "products self = Some ps" by auto
  define I :: "order list \<Rightarrow> line_item list \<Rightarrow> bool" where
    "I = (\<lambda>os lis. \<forall>order\<in>set os. o_total_cogs order = None \<longleftrightarrow> o_profit order = None)"
  have "\<exists>os lis. orders self' = Some os \<and> order_line_items self' = Some lis \<and> I os lis"
  proof (rule generate_orders_tables[where I = I and ps = ps, OF _ assms ps])
    show "I [] []" by (simp add: I_def)
  next
    fix c acq oid g1 order items g2 os lis
    assume one: "one_order ops ps c (c_segment c = ''B2B'') acq oid g1 = Inr ((order, items), g2)"
      and I: "I os lis"
    from one_order_shape[OF one] obtain d selected pct g4 where
      nulls: "inject_nulls ops (order_record c oid d selected pct) g4 = (order, g2)" by blast
    from inject_nulls_fields[OF nulls]
    have "o_total_cogs order = None \<longleftrightarrow> o_profit order = None"
      by (auto simp: order_record_fields)
    with I show "I (os @ [order]) (lis @ items)" by (simp add: I_def)
  qed
  then show ?thesis by (auto simp: I_def)
qed

theorem order_cogs_profit_paired_null_witness:
  "generate_orders tape example_input example_order_tape = Inr (example_result, ([], [])) \<and>
   orders example_result = Some [example_order1, example_order2] \<and>
   o_total_cogs example_order1 = Some (fl (4250 / 100)) \<and>
   o_profit example_order1 = Some (fl (4295 / 100)) \<and>
   o_total_cogs example_order2 = None \<and> o_profit example_order2 = None"
  using order_cogs_profit_paired_null[OF example_orders] example_orders
  by (simp add: example_result_def example_order1_def example_order2_def)

text \<open>
  Claim C9: the cost and profit fields of a line item are never null. The line items
  are computed from the unrounded totals of the order, not from its stored fields, so
  nulling the cost and profit of the order leaves them untouched: in the small run the
  second order has lost both fields and its line item carries both.
\<close>

theorem line_item_cogs_profit_present:
  assumes "generate_orders ops self g = Inr (self', g')"
  shows "\<exists>lis. order_line_items self' = Some lis \<and>
           (\<forall>li\<in>set lis. li_cogs li \<noteq> None \<and> li_profit li \<noteq> None)"
proof -
  from generate_orders_inputs[OF assms] obtain ps where ps: "products self = Some ps" by auto
  define I :: "order list \<Rightarrow> line_item list \<Rightarrow> bool" where
    "I = (\<lambda>os lis. \<forall>li\<in>set lis. li_cogs li \<noteq> None \<and> li_profit li \<noteq> None)"
  have "\<exists>os lis. orders self' = Some os \<and> order_line_items self' = Some lis \<and> I os lis"
  proof (rule generate_orders_tables[where I = I and ps = ps, OF _ assms ps])
    show "I [] []" by (simp add: I_def)
  next
    fix c acq oid g1 order items g2 os lis
    assume one: "one_order ops ps c (c_segment c = ''B2B'') acq oid g1 = Inr ((order, items), g2)"
      and I: "I os lis"
    from one_order_shape[OF one] obtain d selected pct g4 where
      items: "line_items_of order c oid selected pct = Inr items" by blast
    have "li_cogs li \<noteq> None \<and> li_profit li \<noteq> None" if "li \<in> set items" for li
    proof -
      from line_items_of_member[OF items that] obtain idx item where
        "make_line_item order c oid (order_subtotal selected)
           (order_discount_amount selected pct) (idx, item) = Inr li" by blast
      from make_line_item_fields(6,7)[OF this] show ?thesis by simp
    qed
    with I show "I (os @ [order]) (lis @ items)" by (auto simp: I_def)
  qed
  then show ?thesis by (auto simp: I_def)
qed

theorem line_item_cogs_profit_present_witness:
  "generate_orders tape example_input example_order_tape = Inr (example_result, ([], [])) \<and>
   orders example_result = Some [example_order1, example_order2] \<and>
   order_line_items example_result = Some example_items \<and>
   o_total_cogs example_order2 = None \<and> o_profit example_order2 = None \<and>
   li_order_id (example_items ! 2) = o_order_id example_order2 \<and>
   li_cogs (example_items ! 2) = Some (fl (850 / 100)) \<and>
   li_profit (example_items ! 2) = Some (fl (1049 / 100))"
  using line_item_cogs_profit_present[OF example_orders] example_orders
  by (simp add: example_result_def example_order2_def example_items_def example_item_def)

text \<open>
  Claim C1, as the code has it. The revenue and the profit of an order are computed from
  the unrounded subtotal, discount amount and cost; every stored field is the rounding of
  its own unrounded value. So for every order of the table there are the selected
  products of the order such that, with the unrounded \<open>subtotal\<close>, \<open>discount_amount\<close>,
  \<open>revenue\<close> and \<open>total_cogs\<close> computed from them as the program does, the stored
  subtotal is \<open>round(subtotal, 2)\<close>, the stored discount amount is
  \<open>round(discount_amount, 2)\<close>, the stored revenue is \<open>round(subtotal - discount_amount, 2)\<close>,
  and, when the stored cost is not null, it is \<open>round(total_cogs, 2)\<close> and the stored
  profit is \<open>round(revenue - total_cogs, 2)\<close>.
\<close>

theorem order_revenue_profit_equations:
  assumes "generate_orders ops self g = Inr (self', g')"
  shows "\<exists>os. orders self' = Some os \<and>
           (\<forall>order\<in>set os. \<exists>selected_products.
              let subtotal = order_subtotal selected_products;
                  discount_amount = fl (subtotal * fl (of_int (o_discount_percent order) / 100));
                  revenue = fl (subtotal - discount_amount);
                  total_cogs = order_total_cogs selected_products
              in o_subtotal order = round2 subtotal \<and>
                 o_discount_amount order = round2 discount_amount \<and>
                 o_revenue order = round2 revenue \<and>
                 (o_total_cogs order \<noteq> None \<longrightarrow>
                    o_total_cogs order = Some (round2 total_cogs) \<and>
                    o_profit order = Some (round2 (fl (revenue - total_cogs)))))"
proof -
  from generate_orders_inputs[OF assms] obtain ps where ps: "products self = Some ps" by auto
  define P :: "order \<Rightarrow> bool" where
    "P = (\<lambda>order. \<exists>selected_products.
              let subtotal = order_subtotal selected_products;
                  discount_amount = fl (subtotal * fl (of_int (o_discount_percent order) / 100));
                  revenue = fl (subtotal - discount_amount);
                  total_cogs = order_total_cogs selected_products
              in o_subtotal order = round2 subtotal \<and>
                 o_discount_amount order = round2 discount_amount \<and>
                 o_revenue order = round2 revenue \<and>
                 (o_total_cogs order \<noteq> None \<longrightarrow>
                    o_total_cogs order = Some (round2 total_cogs) \<and>
                    o_profit order = Some (round2 (fl (revenue - total_cogs)))))"
  define I :: "order list \<Rightarrow> line_item list \<Rightarrow> bool" where
    "I = (\<lambda>os lis. \<forall>order\<in>set os. P order)"
  have "\<exists>os lis. orders self' = Some os \<and> order_line_items self' = Some lis \<and> I os lis"
  proof (rule generate_orders_tables[where I = I and ps = ps, OF _ assms ps])
    show "I [] []" by (simp add: I_def)
  next
    fix c acq oid g1 order items g2 os lis
    assume one: "one_order ops ps c (c_segment c = ''B2B'') acq oid g1 = Inr ((order, items), g2)"
      and I: "I os lis"
    from one_order_shape[OF one] obtain d selected pct g4 where
      nulls: "inject_nulls ops (order_record c oid d selected pct) g4 = (order, g2)" by blast
    note f = inject_nulls_fields[OF nulls, unfolded order_record_fields]
    have pct: "o_discount_percent order = pct" using f by simp
    have "o_subtotal order = round2 (order_subtotal selected)" using f by simp
    moreover have "o_discount_amount order
        = round2 (fl (order_subtotal selected * fl (of_int (o_discount_percent order) / 100)))"
      using f by (simp add: order_discount_amount_def)
    moreover have "o_revenue order
        = round2 (fl (order_subtotal selected
            - fl (order_subtotal selected * fl (of_int (o_discount_percent order) / 100))))"
      using f by (simp add: order_revenue_def order_discount_amount_def)
    moreover have "o_total_cogs order \<noteq> None \<longrightarrow>
        o_total_cogs order = Some (round2 (order_total_cogs selected)) \<and>
        o_profit order = Some (round2 (fl (fl (order_subtotal selected
            - fl (order_subtotal selected * fl (of_int (o_discount_percent order) / 100)))
            - order_total_cogs selected)))"
      using f by (auto simp: order_profit_def order_revenue_def order_discount_amount_def)
    ultimately have "P order" unfolding P_def Let_def by blast
    with I show "I (os @ [order]) (lis @ items)" by (simp add: I_def)
  qed
  then show ?thesis unfolding I_def P_def by blast
qed

theorem order_revenue_profit_equations_witness:
  "generate_orders tape example_input example_order_tape = Inr (example_result, ([], [])) \<and>
   orders example_result = Some [example_order1, example_order2] \<and>
   o_subtotal example_order1 = round2 (order_subtotal example_selected1) \<and>
   o_discount_amount example_order1 = round2 (order_discount_amount example_selected1 10) \<and>
   o_revenue example_order1 = round2 (order_revenue example_selected1 10) \<and>
   o_total_cogs example_order1 = Some (round2 (order_total_cogs example_selected1)) \<and>
   o_profit example_order1 = Some (round2 (order_profit example_selected1 10))"
  using order_revenue_profit_equations[OF example_orders] example_orders
  by (simp add: example_result_def example_order1_def ex_totals1)

text \<open>
  Claim C1 as stated, between the stored fields, fails. In the small run the first order
  has the unrounded subtotal 94.95 and discount amount 9.495 (a little below, as floats):
  the stored subtotal is 94.95, the stored discount amount 9.49 and the stored revenue
  85.45, while rounding the difference of the two stored fields gives 85.46.
\<close>

theorem persisted_revenue_counterexample:
  "pipeline tape 1 0 init example_tape = Inr (example_result, ([], [])) \<and>
   orders example_result = Some [example_order1, example_order2] \<and>
   o_subtotal example_order1 = fl (9495 / 100) \<and>
   o_discount_amount example_order1 = fl (949 / 100) \<and>
   o_revenue example_order1 = fl (8545 / 100) \<and>
   round2 (fl (o_subtotal example_order1 - o_discount_amount example_order1)) = fl (8546 / 100) \<and>
   fl (8545 / 100) \<noteq> fl (8546 / 100)"
  using ex_pipeline
  by (simp add: example_result_def example_order1_def round2_def example_roundings eval_simps)

text \<open>
  Claim C3: every line item of the table belongs to an order of the table, and its
  fields are computed from the unrounded values of that order as the claim says, in float
  arithmetic: the discount of the item is its share \<open>item_subtotal / subtotal\<close> of the
  order's discount amount, its revenue is \<open>item_subtotal - item_discount\<close>, its profit is
  \<open>item_revenue - item_cogs\<close>, and each stored field is the rounding of its value to two
  decimals. The order subtotal is not zero, so the share is defined.
\<close>

theorem line_item_allocation:
  assumes "generate_orders ops self g = Inr (self', g')"
  shows "\<exists>os lis. orders self' = Some os \<and> order_line_items self' = Some lis \<and>
           (\<forall>li\<in>set lis. \<exists>order\<in>set os. \<exists>selected_products item.
              item \<in> set selected_products \<and> li_order_id li = o_order_id order \<and>
              (let subtotal = order_subtotal selected_products;
                   discount_amount = fl (subtotal * fl (of_int (o_discount_percent order) / 100));
                   item_subtotal = item_price item;
                   item_discount = fl (fl (item_subtotal / subtotal) * discount_amount);
                   item_revenue = fl (item_subtotal - item_discount);
                   item_cogs = item_cost item;
                   item_profit = fl (item_revenue - item_cogs)
               in subtotal \<noteq> 0 \<and>
                  o_subtotal order = round2 subtotal \<and>
                  o_discount_amount order = round2 discount_amount \<and>
                  li_subtotal li = round2 item_subtotal \<and>
                  li_discount_amount li = round2 item_discount \<and>
                  li_revenue li = round2 item_revenue \<and>
                  li_cogs li = Some (round2 item_cogs) \<and>
                  li_profit li = Some (round2 item_profit)))"
proof -
  from generate_orders_inputs[OF assms] obtain ps where ps: "products self = Some ps" by auto
  define Q :: "order \<Rightarrow> line_item \<Rightarrow> bool" where
    "Q = (\<lambda>order li. \<exists>selected_products item.
              item \<in> set selected_products \<and> li_order_id li = o_order_id order \<and>
              (let subtotal = order_subtotal selected_products;
                   discount_amount = fl (subtotal * fl (of_int (o_discount_percent order) / 100));
                   item_subtotal = item_price item;
                   item_discount = fl (fl (item_subtotal / subtotal) * discount_amount);
                   item_revenue = fl (item_subtotal - item_discount);
                   item_cogs = item_cost item;
                   item_profit = fl (item_revenue - item_cogs)
               in subtotal \<noteq> 0 \<and>
                  o_subtotal order = round2 subtotal \<and>
                  o_discount_amount order = round2 discount_amount \<and>
                  li_subtotal li = round2 item_subtotal \<and>
                  li_discount_amount li = round2 item_discount \<and>
                  li_revenue li = round2 item_revenue \<and>
                  li_cogs li = Some (round2 item_cogs) \<and>
                  li_profit li = Some (round2 item_profit)))"
  define I :: "order list \<Rightarrow> line_item list \<Rightarrow> bool" where
    "I = (\<lambda>os lis. \<forall>li\<in>set lis. \<exists>order\<in>set os. Q order li)"
  have "\<exists>os lis. orders self' = Some os \<and> order_line_items self' = Some lis \<and> I os lis"
  proof (rule generate_orders_tables[where I = I and ps = ps, OF _ assms ps])
    show "I [] []" by (simp add: I_def)
  next
    fix c acq oid g1 order items g2 os lis
    assume one: "one_order ops ps c (c_segment c = ''B2B'') acq oid g1 = Inr ((order, items), g2)"
      and I: "I os lis"
    from one_order_shape[OF one] obtain d selected pct g4 where
      nulls: "inject_nulls ops (order_record c oid d selected pct) g4 = (order, g2)"
      and items: "line_items_of order c oid selected pct = Inr items" by blast
    note f = inject_nulls_fields[OF nulls, unfolded order_record_fields]
    have pct: "o_discount_percent order = pct" using f by simp
    have sub: "o_subtotal order = round2 (order_subtotal selected)" using f by simp
    have dis: "o_discount_amount order
        = round2 (fl (order_subtotal selected * fl (of_int (o_discount_percent order) / 100)))"
      using f by (simp add: order_discount_amount_def)
    have D: "order_discount_amount selected pct
        = fl (order_subtotal selected * fl (of_int (o_discount_percent order) / 100))"
      by (simp add: order_discount_amount_def pct)
    have new: "Q order li" if "li \<in> set items" for li
    proof -
      from line_items_of_member[OF items that] obtain idx item where
        item: "item \<in> set selected"
        and mk: "make_line_item order c oid (order_subtotal selected)
           (order_discount_amount selected pct) (idx, item) = Inr li" by blast
      note m = make_line_item_fields[OF mk, unfolded D]
      show ?thesis unfolding Q_def Let_def
        apply (rule exI[of _ selected])
        apply (rule exI[of _ item])
        using item m(1,2,3,4,5,6,7) sub dis by simp
    qed
    have old: "\<exists>order'\<in>set (os @ [order]). Q order' li" if "li \<in> set lis" for li
      using I that by (auto simp: I_def)
    show "I (os @ [order]) (lis @ items)"
      unfolding I_def using old new by auto
  qed
  then show ?thesis unfolding I_def Q_def by blast
qed

theorem line_item_allocation_witness:
  "generate_orders tape example_input example_order_tape = Inr (example_result, ([], [])) \<and>
   orders example_result = Some [example_order1, example_order2] \<and>
   order_line_items example_result = Some example_items \<and>
   li_order_id (example_items ! 0) = o_order_id example_order1 \<and>
   (products_data ! 0, 2) \<in> set example_selected1 \<and>
   order_subtotal example_selected1 \<noteq> 0 \<and>
   o_subtotal example_order1 = round2 (order_subtotal example_selected1) \<and>
   li_subtotal (example_items ! 0) = round2 (item_price (products_data ! 0, 2)) \<and>
   li_discount_amount (example_items ! 0)
     = round2 (fl (fl (item_price (products_data ! 0, 2) / order_subtotal example_selected1)
                   * order_discount_amount example_selected1 10)) \<and>
   li_discount_amount (example_items ! 0) = fl (380 / 100) \<and>
   li_revenue (example_items ! 0) = fl (3418 / 100) \<and>
   li_profit (example_items ! 0) = Some (fl (1718 / 100))"
  using line_item_allocation[OF example_orders] example_orders
  by (simp add: example_result_def example_order1_def example_items_def example_item_def
      ex_totals1 money_simps example_selected1_def product0 example_roundings eval_simps)

subsection \<open>Claim about complete runs\<close>


end
